theory Spec2Isabelle
  imports Complex_Main
begin

section \<open>Numeric values\<close>

text \<open>
  The arrays of \<open>nextorch/utils.py\<close> hold binary64 numbers. The embedding computes
  over the reals, extended by the three non-finite values that numpy produces at the
  singular points of the arithmetic (division by zero, logarithm of a non-positive
  number): numpy does not raise there, it stores \<open>inf\<close>, \<open>-inf\<close> or \<open>nan\<close> in the
  result array. Rounding, overflow and the sign of zero are not modelled.
\<close>

datatype xreal = Val real | PosInf | NegInf | NaN

fun xneg :: "xreal \<Rightarrow> xreal" where
  "xneg (Val a) = Val (- a)"
| "xneg PosInf = NegInf"
| "xneg NegInf = PosInf"
| "xneg NaN = NaN"

fun xadd :: "xreal \<Rightarrow> xreal \<Rightarrow> xreal" where
  "xadd (Val a) (Val b) = Val (a + b)"
| "xadd NaN _ = NaN"
| "xadd _ NaN = NaN"
| "xadd PosInf NegInf = NaN"
| "xadd NegInf PosInf = NaN"
| "xadd PosInf _ = PosInf"
| "xadd _ PosInf = PosInf"
| "xadd NegInf _ = NegInf"
| "xadd _ NegInf = NegInf"

definition xsub :: "xreal \<Rightarrow> xreal \<Rightarrow> xreal" where
  "xsub a b = xadd a (xneg b)"

fun xmul :: "xreal \<Rightarrow> xreal \<Rightarrow> xreal" where
  "xmul (Val a) (Val b) = Val (a * b)"
| "xmul NaN _ = NaN"
| "xmul _ NaN = NaN"
| "xmul PosInf (Val b) = (if b = 0 then NaN else if 0 < b then PosInf else NegInf)"
| "xmul NegInf (Val b) = (if b = 0 then NaN else if 0 < b then NegInf else PosInf)"
| "xmul (Val a) PosInf = (if a = 0 then NaN else if 0 < a then PosInf else NegInf)"
| "xmul (Val a) NegInf = (if a = 0 then NaN else if 0 < a then NegInf else PosInf)"
| "xmul PosInf PosInf = PosInf"
| "xmul PosInf NegInf = NegInf"
| "xmul NegInf PosInf = NegInf"
| "xmul NegInf NegInf = PosInf"

fun xdiv :: "xreal \<Rightarrow> xreal \<Rightarrow> xreal" where
  "xdiv (Val a) (Val b) =
     (if b = 0 then (if a = 0 then NaN else if 0 < a then PosInf else NegInf)
      else Val (a / b))"
| "xdiv NaN _ = NaN"
| "xdiv _ NaN = NaN"
| "xdiv (Val a) PosInf = Val 0"
| "xdiv (Val a) NegInf = Val 0"
| "xdiv PosInf (Val b) = (if 0 \<le> b then PosInf else NegInf)"
| "xdiv NegInf (Val b) = (if 0 \<le> b then NegInf else PosInf)"
| "xdiv PosInf _ = NaN"
| "xdiv NegInf _ = NaN"

text \<open>\<open>np.log10\<close>: \<open>-inf\<close> at zero, \<open>nan\<close> below it.\<close>

fun xlog10 :: "xreal \<Rightarrow> xreal" where
  "xlog10 (Val a) = (if 0 < a then Val (log 10 a) else if a = 0 then NegInf else NaN)"
| "xlog10 PosInf = PosInf"
| "xlog10 NegInf = NaN"
| "xlog10 NaN = NaN"

text \<open>\<open>10 ** x\<close>.\<close>

fun xpow10 :: "xreal \<Rightarrow> xreal" where
  "xpow10 (Val a) = Val (10 powr a)"
| "xpow10 PosInf = PosInf"
| "xpow10 NegInf = Val 0"
| "xpow10 NaN = NaN"

fun xsqrt :: "xreal \<Rightarrow> xreal" where
  "xsqrt (Val a) = (if 0 \<le> a then Val (sqrt a) else NaN)"
| "xsqrt PosInf = PosInf"
| "xsqrt NegInf = NaN"
| "xsqrt NaN = NaN"

text \<open>\<open>np.rint\<close>: the nearest integer, a tie going to the even one.\<close>

definition rint :: "real \<Rightarrow> int" where
  "rint r =
     (let f = \<lfloor>r\<rfloor>; d = r - of_int f
      in if d < 1 / 2 then f else if 1 / 2 < d then f + 1
         else if even f then f else f + 1)"

text \<open>
  \<open>np.around(x, decimals)\<close> on one element: scale by \<open>10 ** decimals\<close>, round to the
  nearest integer, scale back.
\<close>

fun xaround :: "int \<Rightarrow> xreal \<Rightarrow> xreal" where
  "xaround d (Val a) = Val (of_int (rint (a * power_int 10 d)) / power_int 10 d)"
| "xaround d PosInf = PosInf"
| "xaround d NegInf = NegInf"
| "xaround d NaN = NaN"

section \<open>Arrays and errors\<close>

datatype py_error = IndexError | TypeError | ValueError

text \<open>
  A two-dimensional array keeps its column count beside its rows, as \<open>X.shape\<close> does:
  an array of shape \<open>(0, d)\<close> has no row and still \<open>d\<close> columns.
\<close>

record matrix =
  ncols :: nat
  rows :: "xreal list list"

definition nrows :: "matrix \<Rightarrow> nat" where
  "nrows M = length (rows M)"

definition shape :: "matrix \<Rightarrow> nat \<times> nat" where
  "shape M = (nrows M, ncols M)"

definition wf_matrix :: "matrix \<Rightarrow> bool" where
  "wf_matrix M = list_all (\<lambda>r. length r = ncols M) (rows M)"

datatype ndarray = Arr1 "xreal list" | Arr2 matrix

text \<open>\<open>xs[i]\<close> for an index that is not negative.\<close>

definition getitem :: "'a list \<Rightarrow> nat \<Rightarrow> py_error + 'a" where
  "getitem xs i = (if i < length xs then Inr (xs ! i) else Inl IndexError)"

text \<open>\<open>np.transpose\<close> of \<open>rs\<close>, rows of length \<open>c\<close>: row \<open>j\<close> of the result is column \<open>j\<close>.\<close>

definition transpose_rows :: "nat \<Rightarrow> 'a list list \<Rightarrow> 'a list list" where
  "transpose_rows c rs = map (\<lambda>j. map (\<lambda>r. r ! j) rs) [0..<c]"

text \<open>
  \<open>np.transpose(X_range)\<close> for a nested list: the list is rectangular, its row
  length is that of its first row.
\<close>

definition np_transpose :: "'a list list \<Rightarrow> 'a list list" where
  "np_transpose rs = (case rs of [] \<Rightarrow> [] | r # _ \<Rightarrow> transpose_rows (length r) rs)"

definition columns :: "matrix \<Rightarrow> xreal list list" where
  "columns M = transpose_rows (ncols M) (rows M)"

definition zeros :: "nat \<Rightarrow> nat \<Rightarrow> matrix" where
  "zeros n d = \<lparr>ncols = d, rows = replicate n (replicate d (Val 0))\<rparr>"

text \<open>\<open>M[:, i] = col\<close>, the column having one value for each row.\<close>

definition set_column :: "matrix \<Rightarrow> nat \<Rightarrow> xreal list \<Rightarrow> matrix" where
  "set_column M i col = M\<lparr>rows := map2 (\<lambda>r v. r[i := v]) (rows M) col\<rparr>"

text \<open>\<open>if len(X.shape) < 2: X = np.array([X])\<close>\<close>

definition atleast_2d :: "ndarray \<Rightarrow> matrix" where
  "atleast_2d X = (case X of Arr1 xs \<Rightarrow> \<lparr>ncols = length xs, rows = [xs]\<rparr> | Arr2 M \<Rightarrow> M)"

definition around :: "int \<Rightarrow> matrix \<Rightarrow> matrix" where
  "around d M = M\<lparr>rows := map (map (xaround d)) (rows M)\<rparr>"

section \<open>Unit scale\<close>

text \<open>\<open>lb = xi_range[0]; rb = xi_range[1]\<close>\<close>

definition range_bounds :: "xreal list \<Rightarrow> py_error + (xreal \<times> xreal)" where
  "range_bounds xi_range =
     (case getitem xi_range 0 of
        Inl e \<Rightarrow> Inl e
      | Inr lb \<Rightarrow> (case getitem xi_range 1 of Inl e \<Rightarrow> Inl e | Inr rb \<Rightarrow> Inr (lb, rb)))"

text \<open>\<open>(xv - lb)/(rb - lb)\<close> and \<open>lb + (rb-lb)*xv\<close> on one element.\<close>

definition unitscale_x :: "xreal \<Rightarrow> xreal \<Rightarrow> xreal \<Rightarrow> xreal" where
  "unitscale_x lb rb x = xdiv (xsub x lb) (xsub rb lb)"

definition inverse_unitscale_x :: "xreal \<Rightarrow> xreal \<Rightarrow> xreal \<Rightarrow> xreal" where
  "inverse_unitscale_x lb rb x = xadd lb (xmul (xsub rb lb) x)"

definition unitscale_xv :: "xreal list \<Rightarrow> xreal list \<Rightarrow> py_error + xreal list" where
  "unitscale_xv xv xi_range =
     (case range_bounds xi_range of Inl e \<Rightarrow> Inl e
      | Inr (lb, rb) \<Rightarrow> Inr (map (unitscale_x lb rb) xv))"

definition inverse_unitscale_xv :: "xreal list \<Rightarrow> xreal list \<Rightarrow> py_error + xreal list" where
  "inverse_unitscale_xv xv xi_range =
     (case range_bounds xi_range of Inl e \<Rightarrow> Inl e
      | Inr (lb, rb) \<Rightarrow> Inr (map (inverse_unitscale_x lb rb) xv))"

text \<open>
  The loop \<open>for i, xi in enumerate(np.transpose(X))\<close> of \<open>unitscale_X\<close>, \<open>Xunit\<close>
  being the array it fills. An index out of range ends the call.
\<close>

fun unitscale_loop ::
  "xreal list list \<Rightarrow> bool list \<Rightarrow> (nat \<times> xreal list) list \<Rightarrow> matrix \<Rightarrow> py_error + matrix" where
  "unitscale_loop X_range log_flags [] Xunit = Inr Xunit"
| "unitscale_loop X_range log_flags ((i, xi) # rest) Xunit =
     (case getitem log_flags i of
        Inl e \<Rightarrow> Inl e
      | Inr flag \<Rightarrow>
          (case getitem X_range i of
             Inl e \<Rightarrow> Inl e
           | Inr ri \<Rightarrow>
               (case unitscale_xv xi ri of
                  Inl e \<Rightarrow> Inl e
                | Inr u \<Rightarrow>
                    unitscale_loop X_range log_flags rest
                      (set_column Xunit i (if flag then map xlog10 u else u)))))"

definition unitscale_X ::
  "ndarray \<Rightarrow> xreal list list \<Rightarrow> bool list \<Rightarrow> int option \<Rightarrow> py_error + matrix" where
  "unitscale_X X0 X_range0 log_flags0 decimals =
     (let X = atleast_2d X0;
          dim = ncols X;
          X_range = (if X_range0 = [] then replicate dim [Val 0, Val 1]
                     else np_transpose X_range0);
          log_flags = (if log_flags0 = [] then replicate dim False else log_flags0);
          Xunit = zeros (nrows X) (ncols X)
      in case unitscale_loop X_range log_flags (enumerate 0 (columns X)) Xunit of
           Inl e \<Rightarrow> Inl e
         | Inr Xunit' \<Rightarrow>
             Inr (case decimals of None \<Rightarrow> Xunit' | Some d \<Rightarrow> around d Xunit'))"

fun inverse_unitscale_loop ::
  "xreal list list \<Rightarrow> bool list \<Rightarrow> (nat \<times> xreal list) list \<Rightarrow> matrix \<Rightarrow> py_error + matrix" where
  "inverse_unitscale_loop X_range log_flags [] Xreal = Inr Xreal"
| "inverse_unitscale_loop X_range log_flags ((i, xi) # rest) Xreal =
     (case getitem log_flags i of
        Inl e \<Rightarrow> Inl e
      | Inr flag \<Rightarrow>
          (case getitem X_range i of
             Inl e \<Rightarrow> Inl e
           | Inr ri \<Rightarrow>
               (case inverse_unitscale_xv xi ri of
                  Inl e \<Rightarrow> Inl e
                | Inr u \<Rightarrow>
                    inverse_unitscale_loop X_range log_flags rest
                      (set_column Xreal i (if flag then map xpow10 u else u)))))"

definition inverse_unitscale_X ::
  "ndarray \<Rightarrow> xreal list list \<Rightarrow> bool list \<Rightarrow> int option \<Rightarrow> py_error + matrix" where
  "inverse_unitscale_X X0 X_range0 log_flags0 decimals =
     (let X = atleast_2d X0;
          dim = ncols X;
          X_range = (if X_range0 = [] then replicate dim [Val 0, Val 1]
                     else np_transpose X_range0);
          log_flags = (if log_flags0 = [] then replicate dim False else log_flags0);
          Xreal = zeros (nrows X) (ncols X)
      in case inverse_unitscale_loop X_range log_flags (enumerate 0 (columns X)) Xreal of
           Inl e \<Rightarrow> Inl e
         | Inr Xreal' \<Rightarrow>
             Inr (case decimals of None \<Rightarrow> Xreal' | Some d \<Rightarrow> around d Xreal'))"

section \<open>Standardization\<close>

text \<open>The sum of a vector, accumulated from zero as \<open>np.add.reduce\<close> does.\<close>

definition xsum :: "xreal list \<Rightarrow> xreal" where
  "xsum xs = foldl xadd (Val 0) xs"

text \<open>\<open>x.mean()\<close> of a vector: the sum over the count, \<open>nan\<close> for the empty vector.\<close>

definition xmean :: "xreal list \<Rightarrow> xreal" where
  "xmean xs = xdiv (xsum xs) (Val (real (length xs)))"

text \<open>
  \<open>x.std()\<close> of a vector, with numpy's default \<open>ddof = 0\<close>: the root of the mean
  squared deviation from the mean.
\<close>

definition xstd :: "xreal list \<Rightarrow> xreal" where
  "xstd xs = (let m = xmean xs in xsqrt (xmean (map (\<lambda>x. xmul (xsub x m) (xsub x m)) xs)))"

text \<open>\<open>X.mean(axis = 0)\<close> and \<open>X.std(axis = 0)\<close>: one value for each column.\<close>

definition col_mean :: "matrix \<Rightarrow> xreal list" where
  "col_mean X = map xmean (columns X)"

definition col_std :: "matrix \<Rightarrow> xreal list" where
  "col_std X = map xstd (columns X)"

text \<open>
  An arithmetic operation of a two-dimensional array and a vector, under numpy's
  broadcasting: the vector has one value for each column, or a single value, or the array
  has a single column; any other pair of shapes raises.
\<close>

definition broadcast ::
  "(xreal \<Rightarrow> xreal \<Rightarrow> xreal) \<Rightarrow> matrix \<Rightarrow> xreal list \<Rightarrow> py_error + matrix" where
  "broadcast f M v =
     (if length v = ncols M then Inr (M\<lparr>rows := map (\<lambda>r. map2 f r v) (rows M)\<rparr>)
      else if length v = 1 then Inr (M\<lparr>rows := map (map (\<lambda>x. f x (v ! 0))) (rows M)\<rparr>)
      else if ncols M = 1 then
        Inr \<lparr>ncols = length v, rows = map (\<lambda>r. map (f (r ! 0)) v) (rows M)\<rparr>
      else Inl ValueError)"

text \<open>
  \<open>standardize_X\<close>. Both statistics are computed under the one test
  \<open>X_mean is None\<close>; \<open>X - X_mean\<close> is evaluated before the division, and dividing an
  array by \<open>None\<close> is a type error.
\<close>

definition standardize_X ::
  "matrix \<Rightarrow> xreal list option \<Rightarrow> xreal list option \<Rightarrow> py_error + matrix" where
  "standardize_X X X_mean0 X_std0 =
     (let (X_mean, X_std) =
            (case X_mean0 of None \<Rightarrow> (col_mean X, Some (col_std X))
                           | Some m \<Rightarrow> (m, X_std0))
      in case broadcast xsub X X_mean of
           Inl e \<Rightarrow> Inl e
         | Inr D \<Rightarrow> (case X_std of None \<Rightarrow> Inl TypeError | Some s \<Rightarrow> broadcast xdiv D s))"

text \<open>
  \<open>inverse_standardize_X\<close>. The tensor branch and the array branch compute the same
  product and sum.
\<close>

definition inverse_standardize_X ::
  "matrix \<Rightarrow> xreal list \<Rightarrow> xreal list \<Rightarrow> py_error + matrix" where
  "inverse_standardize_X X X_mean X_std =
     (case broadcast xmul X X_std of Inl e \<Rightarrow> Inl e | Inr P \<Rightarrow> broadcast xadd P X_mean)"

section \<open>Two-dimensional mesh\<close>

text \<open>
  \<open>np.linspace(start, stop, n)\<close>: \<open>n\<close> values, the \<open>k\<close>-th being
  \<open>start + k * (stop - start) / (n - 1)\<close>; the single value of \<open>n = 1\<close> is \<open>start\<close>.
\<close>

definition linspace :: "real \<Rightarrow> real \<Rightarrow> nat \<Rightarrow> xreal list" where
  "linspace start stop n =
     map (\<lambda>k. Val (if n = 1 then start else start + real k * (stop - start) / real (n - 1)))
       [0..<n]"

text \<open>
  \<open>np.meshgrid(x1, x2, indexing='xy')\<close>: two arrays of \<open>len(x2)\<close> rows and
  \<open>len(x1)\<close> columns, \<open>X1[i, j] = x1[j]\<close> and \<open>X2[i, j] = x2[i]\<close>.
\<close>

definition meshgrid_xy :: "xreal list \<Rightarrow> xreal list \<Rightarrow> matrix \<times> matrix" where
  "meshgrid_xy x1 x2 =
     (\<lparr>ncols = length x1, rows = replicate (length x2) x1\<rparr>,
      \<lparr>ncols = length x1, rows = map (\<lambda>v. replicate (length x1) v) x2\<rparr>)"

text \<open>
  \<open>create_2D_mesh\<close>. A negative size is refused by \<open>np.linspace\<close>. Both grids have
  \<open>mesh_size\<close> rows and columns, so the two loops read them in range. The array of no
  pair is one-dimensional.
\<close>

definition create_2D_mesh :: "int \<Rightarrow> py_error + (ndarray \<times> matrix \<times> matrix)" where
  "create_2D_mesh mesh_size =
     (if mesh_size < 0 then Inl ValueError
      else
        let nx1 = nat mesh_size; nx2 = nat mesh_size;
            x1 = linspace 0 1 nx1;
            x2 = linspace 0 1 nx2;
            (X1, X2) = meshgrid_xy x1 x2;
            X_test = concat (map (\<lambda>i. map (\<lambda>j. [rows X1 ! i ! j, rows X2 ! i ! j]) [0..<nx2])
                               [0..<nx1])
        in Inr (if X_test = [] then Arr1 [] else Arr2 \<lparr>ncols = 2, rows = X_test\<rparr>, X1, X2))"

section \<open>The transforms on a store\<close>

text \<open>
  Arrays are objects: a caller sees a write to an argument. The store holds the array
  objects, an address being an index into it; a new object goes to the end. Every
  array-valued expression of the source allocates its result; the one statement that
  writes into an existing array is the column assignment \<open>Xunit[:, i] = ...\<close>
  (\<open>Xreal[:, i] = ...\<close>). Range and flag lists are read only and are passed as values.
\<close>

type_synonym addr = nat

type_synonym heap = "ndarray list"

definition alloc :: "heap \<Rightarrow> ndarray \<Rightarrow> addr \<times> heap" where
  "alloc h v = (length h, h @ [v])"

text \<open>
  A reference is an array object or the view of one of its columns, as the rows of
  \<open>np.transpose(X)\<close> are: a view shares the memory of its base.
\<close>

datatype aref = Whole addr | Column addr nat

fun view :: "heap \<Rightarrow> aref \<Rightarrow> ndarray" where
  "view h (Whole a) = h ! a"
| "view h (Column a j) = Arr1 (map (\<lambda>r. r ! j) (rows (atleast_2d (h ! a))))"

fun map_ndarray :: "(xreal \<Rightarrow> xreal) \<Rightarrow> ndarray \<Rightarrow> ndarray" where
  "map_ndarray f (Arr1 xs) = Arr1 (map f xs)"
| "map_ndarray f (Arr2 M) = Arr2 (M\<lparr>rows := map (map f) (rows M)\<rparr>)"

fun vec_of :: "ndarray \<Rightarrow> xreal list" where
  "vec_of (Arr1 xs) = xs"
| "vec_of (Arr2 M) = concat (rows M)"

definition unitscale_xv_st :: "heap \<Rightarrow> aref \<Rightarrow> xreal list \<Rightarrow> (py_error + addr) \<times> heap" where
  "unitscale_xv_st h xv xi_range =
     (let (xunit, h1) = alloc h (view h xv)
      in case range_bounds xi_range of
           Inl e \<Rightarrow> (Inl e, h1)
         | Inr (lb, rb) \<Rightarrow>
             (let (t, h2) = alloc h1 (map_ndarray (\<lambda>x. xsub x lb) (view h1 xv));
                  (xunit', h3) = alloc h2 (map_ndarray (\<lambda>y. xdiv y (xsub rb lb)) (h2 ! t))
              in (Inr xunit', h3)))"

definition inverse_unitscale_xv_st ::
  "heap \<Rightarrow> aref \<Rightarrow> xreal list \<Rightarrow> (py_error + addr) \<times> heap" where
  "inverse_unitscale_xv_st h xv xi_range =
     (let (xreal, h1) = alloc h (view h xv)
      in case range_bounds xi_range of
           Inl e \<Rightarrow> (Inl e, h1)
         | Inr (lb, rb) \<Rightarrow>
             (let (t, h2) = alloc h1 (map_ndarray (\<lambda>x. xmul (xsub rb lb) x) (view h1 xv));
                  (xreal', h3) = alloc h2 (map_ndarray (\<lambda>y. xadd lb y) (h2 ! t))
              in (Inr xreal', h3)))"

fun unitscale_loop_st ::
  "heap \<Rightarrow> addr \<Rightarrow> addr \<Rightarrow> xreal list list \<Rightarrow> bool list \<Rightarrow> nat list \<Rightarrow> (py_error + unit) \<times> heap" where
  "unitscale_loop_st h X Xunit X_range log_flags [] = (Inr (), h)"
| "unitscale_loop_st h X Xunit X_range log_flags (i # is) =
     (case getitem log_flags i of
        Inl e \<Rightarrow> (Inl e, h)
      | Inr flag \<Rightarrow>
          (case getitem X_range i of
             Inl e \<Rightarrow> (Inl e, h)
           | Inr ri \<Rightarrow>
               (case unitscale_xv_st h (Column X i) ri of
                  (Inl e, h1) \<Rightarrow> (Inl e, h1)
                | (Inr a, h1) \<Rightarrow>
                    (let (b, h2) = (if flag then alloc h1 (map_ndarray xlog10 (h1 ! a))
                                    else (a, h1));
                         h3 = h2[Xunit := Arr2 (set_column (atleast_2d (h2 ! Xunit)) i
                                                 (vec_of (h2 ! b)))]
                     in unitscale_loop_st h3 X Xunit X_range log_flags is))))"

text \<open>\<open>X = copy.deepcopy(X); X = np.array([X])\<close> for an array of one dimension.\<close>

definition promote_st :: "heap \<Rightarrow> addr \<Rightarrow> addr \<times> heap" where
  "promote_st h X =
     (case h ! X of
        Arr1 xs \<Rightarrow> (let (c, h1) = alloc h (Arr1 xs) in alloc h1 (Arr2 (atleast_2d (h1 ! c))))
      | Arr2 M \<Rightarrow> (X, h))"

definition unitscale_X_st ::
  "heap \<Rightarrow> addr \<Rightarrow> xreal list list \<Rightarrow> bool list \<Rightarrow> int option \<Rightarrow> (py_error + addr) \<times> heap" where
  "unitscale_X_st h X0 X_range0 log_flags0 decimals =
     (let (X, h1) = promote_st h X0;
          M = atleast_2d (h1 ! X);
          dim = ncols M;
          X_range = (if X_range0 = [] then replicate dim [Val 0, Val 1]
                     else np_transpose X_range0);
          log_flags = (if log_flags0 = [] then replicate dim False else log_flags0);
          (Xunit, h2) = alloc h1 (Arr2 (zeros (nrows M) (ncols M)))
      in case unitscale_loop_st h2 X Xunit X_range log_flags [0..<dim] of
           (Inl e, h3) \<Rightarrow> (Inl e, h3)
         | (Inr _, h3) \<Rightarrow>
             (case decimals of
                None \<Rightarrow> (Inr Xunit, h3)
              | Some d \<Rightarrow>
                  (let (r, h4) = alloc h3 (Arr2 (around d (atleast_2d (h3 ! Xunit))))
                   in (Inr r, h4))))"

fun inverse_unitscale_loop_st ::
  "heap \<Rightarrow> addr \<Rightarrow> addr \<Rightarrow> xreal list list \<Rightarrow> bool list \<Rightarrow> nat list \<Rightarrow> (py_error + unit) \<times> heap" where
  "inverse_unitscale_loop_st h X Xreal X_range log_flags [] = (Inr (), h)"
| "inverse_unitscale_loop_st h X Xreal X_range log_flags (i # is) =
     (case getitem log_flags i of
        Inl e \<Rightarrow> (Inl e, h)
      | Inr flag \<Rightarrow>
          (case getitem X_range i of
             Inl e \<Rightarrow> (Inl e, h)
           | Inr ri \<Rightarrow>
               (case inverse_unitscale_xv_st h (Column X i) ri of
                  (Inl e, h1) \<Rightarrow> (Inl e, h1)
                | (Inr a, h1) \<Rightarrow>
                    (let (b, h2) = (if flag then alloc h1 (map_ndarray xpow10 (h1 ! a))
                                    else (a, h1));
                         h3 = h2[Xreal := Arr2 (set_column (atleast_2d (h2 ! Xreal)) i
                                                 (vec_of (h2 ! b)))]
                     in inverse_unitscale_loop_st h3 X Xreal X_range log_flags is))))"

definition inverse_unitscale_X_st ::
  "heap \<Rightarrow> addr \<Rightarrow> xreal list list \<Rightarrow> bool list \<Rightarrow> int option \<Rightarrow> (py_error + addr) \<times> heap" where
  "inverse_unitscale_X_st h X0 X_range0 log_flags0 decimals =
     (let (X, h1) = promote_st h X0;
          M = atleast_2d (h1 ! X);
          dim = ncols M;
          X_range = (if X_range0 = [] then replicate dim [Val 0, Val 1]
                     else np_transpose X_range0);
          log_flags = (if log_flags0 = [] then replicate dim False else log_flags0);
          (Xreal, h2) = alloc h1 (Arr2 (zeros (nrows M) (ncols M)))
      in case inverse_unitscale_loop_st h2 X Xreal X_range log_flags [0..<dim] of
           (Inl e, h3) \<Rightarrow> (Inl e, h3)
         | (Inr _, h3) \<Rightarrow>
             (case decimals of
                None \<Rightarrow> (Inr Xreal, h3)
              | Some d \<Rightarrow>
                  (let (r, h4) = alloc h3 (Arr2 (around d (atleast_2d (h3 ! Xreal))))
                   in (Inr r, h4))))"

text \<open>The mean and the deviation are arrays of the store, given by address or absent.\<close>

definition standardize_X_st ::
  "heap \<Rightarrow> addr \<Rightarrow> addr option \<Rightarrow> addr option \<Rightarrow> (py_error + addr) \<times> heap" where
  "standardize_X_st h X X_mean0 X_std0 =
     (let M = atleast_2d (h ! X);
          (X_mean, X_std, h1) =
            (case X_mean0 of
               None \<Rightarrow> (let (m, ha) = alloc h (Arr1 (col_mean M));
                            (s, hb) = alloc ha (Arr1 (col_std M))
                        in (m, Some s, hb))
             | Some m \<Rightarrow> (m, X_std0, h))
      in case broadcast xsub M (vec_of (h1 ! X_mean)) of
           Inl e \<Rightarrow> (Inl e, h1)
         | Inr D \<Rightarrow>
             (let (d, h2) = alloc h1 (Arr2 D)
              in case X_std of
                   None \<Rightarrow> (Inl TypeError, h2)
                 | Some s \<Rightarrow>
                     (case broadcast xdiv (atleast_2d (h2 ! d)) (vec_of (h2 ! s)) of
                        Inl e \<Rightarrow> (Inl e, h2)
                      | Inr Z \<Rightarrow> (let (z, h3) = alloc h2 (Arr2 Z) in (Inr z, h3)))))"

definition inverse_standardize_X_st ::
  "heap \<Rightarrow> addr \<Rightarrow> addr \<Rightarrow> addr \<Rightarrow> (py_error + addr) \<times> heap" where
  "inverse_standardize_X_st h X X_mean X_std =
     (case broadcast xmul (atleast_2d (h ! X)) (vec_of (h ! X_std)) of
        Inl e \<Rightarrow> (Inl e, h)
      | Inr P \<Rightarrow>
          (let (p, h1) = alloc h (Arr2 P)
           in case broadcast xadd (atleast_2d (h1 ! p)) (vec_of (h1 ! X_mean)) of
                Inl e \<Rightarrow> (Inl e, h1)
              | Inr Y \<Rightarrow> (let (X_real, h2) = alloc h1 (Arr2 Y) in (Inr X_real, h2))))"

section \<open>The orders that the specification words\<close>

text \<open>
  The inverse of one column as the specification describes it for a column whose flag
  is set: the power of ten first, the vector inverse after it.
\<close>

definition inverse_column_power_first ::
  "xreal list \<Rightarrow> xreal list \<Rightarrow> py_error + xreal list" where
  "inverse_column_power_first xi xi_range = inverse_unitscale_xv (map xpow10 xi) xi_range"

text \<open>
  The pairs of the mesh in the order the specification words: the outer loop over the
  values of \<open>x1\<close>, the inner loop over those of \<open>x2\<close>.
\<close>

definition mesh_pairs_x1_outer :: "nat \<Rightarrow> xreal list list" where
  "mesh_pairs_x1_outer n =
     concat (map (\<lambda>a. map (\<lambda>b. [linspace 0 1 n ! a, linspace 0 1 n ! b]) [0..<n]) [0..<n])"

text \<open>
  What a call does to the store it starts from: the objects that were there are as they
  were, and a returned address is that of a new object.
\<close>

definition fresh_result :: "heap \<Rightarrow> (py_error + addr) \<times> heap \<Rightarrow> bool" where
  "fresh_result h out =
     (case out of (res, h') \<Rightarrow>
        take (length h) h' = h \<and>
        (case res of Inl e \<Rightarrow> True | Inr a \<Rightarrow> length h \<le> a \<and> a < length h'))"

text \<open>A reference into the store: its base is an object of the store.\<close>

fun valid_ref :: "heap \<Rightarrow> aref \<Rightarrow> bool" where
  "valid_ref h (Whole a) = (a < length h)"
| "valid_ref h (Column a j) = (a < length h)"

text \<open>
  A call on the store agrees with a result \<open>pure\<close> of the transform on values: it raises
  the same error, or the object at the address it returns is the array \<open>pure\<close> holds.
\<close>

definition agrees :: "(py_error + addr) \<times> heap \<Rightarrow> py_error + ndarray \<Rightarrow> bool" where
  "agrees out pure =
     (case out of (res, h') \<Rightarrow>
        (case pure of
           Inl e \<Rightarrow> res = Inl e
         | Inr v \<Rightarrow> (case res of Inl e \<Rightarrow> False | Inr a \<Rightarrow> a < length h' \<and> h' ! a = v)))"

section \<open>The column loops in closed form\<close>

text \<open>
  Both loops have one shape: iteration \<open>i\<close> computes a column from column \<open>xi\<close> of the
  input, or raises, and writes it into column \<open>i\<close> of the result.
\<close>

fun col_loop ::
  "(nat \<Rightarrow> xreal list \<Rightarrow> py_error + xreal list) \<Rightarrow> (nat \<times> xreal list) list \<Rightarrow> matrix
     \<Rightarrow> py_error + matrix" where
  "col_loop f [] M = Inr M"
| "col_loop f ((i, xi) # rest) M =
     (case f i xi of Inl e \<Rightarrow> Inl e | Inr u \<Rightarrow> col_loop f rest (set_column M i u))"

definition unitscale_col ::
  "xreal list list \<Rightarrow> bool list \<Rightarrow> nat \<Rightarrow> xreal list \<Rightarrow> py_error + xreal list" where
  "unitscale_col X_range log_flags i xi =
     (case getitem log_flags i of
        Inl e \<Rightarrow> Inl e
      | Inr flag \<Rightarrow>
          (case getitem X_range i of
             Inl e \<Rightarrow> Inl e
           | Inr ri \<Rightarrow>
               (case unitscale_xv xi ri of
                  Inl e \<Rightarrow> Inl e
                | Inr u \<Rightarrow> Inr (if flag then map xlog10 u else u))))"

definition inverse_unitscale_col ::
  "xreal list list \<Rightarrow> bool list \<Rightarrow> nat \<Rightarrow> xreal list \<Rightarrow> py_error + xreal list" where
  "inverse_unitscale_col X_range log_flags i xi =
     (case getitem log_flags i of
        Inl e \<Rightarrow> Inl e
      | Inr flag \<Rightarrow>
          (case getitem X_range i of
             Inl e \<Rightarrow> Inl e
           | Inr ri \<Rightarrow>
               (case inverse_unitscale_xv xi ri of
                  Inl e \<Rightarrow> Inl e
                | Inr u \<Rightarrow> Inr (if flag then map xpow10 u else u))))"

text \<open>
  The array \<open>M\<close> after columns \<open>n, n + 1, ...\<close> have been written, column \<open>j\<close> holding
  \<open>g j\<close> of the elements of the column \<open>cs ! (j - n)\<close>.
\<close>

definition filled ::
  "(nat \<Rightarrow> xreal \<Rightarrow> xreal) \<Rightarrow> nat \<Rightarrow> xreal list list \<Rightarrow> matrix \<Rightarrow> matrix" where
  "filled g n cs M =
     M\<lparr>rows := map (\<lambda>k. map (\<lambda>j. if n \<le> j \<and> j < n + length cs then g j (cs ! (j - n) ! k)
                                   else rows M ! k ! j) [0..<length (rows M ! k)])
                 [0..<length (rows M)]\<rparr>"

text \<open>The array whose column \<open>j\<close> is \<open>g j\<close> of column \<open>j\<close> of \<open>X\<close>.\<close>

definition map_columns :: "(nat \<Rightarrow> xreal \<Rightarrow> xreal) \<Rightarrow> matrix \<Rightarrow> matrix" where
  "map_columns g X = \<lparr>ncols = ncols X, rows = map (\<lambda>r. map (\<lambda>j. g j (r ! j)) [0..<ncols X]) (rows X)\<rparr>"

text \<open>The rounding that the argument \<open>decimals\<close> asks for.\<close>

definition rounded :: "int option \<Rightarrow> matrix \<Rightarrow> matrix" where
  "rounded decimals M = (case decimals of None \<Rightarrow> M | Some d \<Rightarrow> around d M)"

text \<open>An array of reals: no element is infinite or \<open>nan\<close>.\<close>

definition is_val :: "xreal \<Rightarrow> bool" where
  "is_val x = (case x of Val _ \<Rightarrow> True | _ \<Rightarrow> False)"

definition finite_matrix :: "matrix \<Rightarrow> bool" where
  "finite_matrix M = list_all (list_all is_val) (rows M)"

section \<open>Properties of the column loops\<close>

lemma set_column_rows:
  "length col = length (rows M) \<Longrightarrow>
     rows (set_column M i col) = map (\<lambda>k. (rows M ! k)[i := col ! k]) [0..<length (rows M)]"
  by (auto simp: set_column_def intro!: nth_equalityI)

lemma set_column_ncols [simp]: "ncols (set_column M i col) = ncols M"
  by (simp add: set_column_def)

lemma filled_Nil: "filled g n [] M = M"
proof -
  have "\<And>j. \<not> (n \<le> j \<and> j < n)" by simp
  then have "rows (filled g n [] M) = rows M"
    by (auto simp: filled_def intro!: nth_equalityI)
  then show ?thesis by (simp add: filled_def)
qed

lemma filled_Cons:
  assumes "length c = length (rows M)"
  shows "filled g (Suc n) cs (set_column M n (map (g n) c)) = filled g n (c # cs) M"
proof -
  let ?M1 = "set_column M n (map (g n) c)"
  have r1: "rows ?M1 = map (\<lambda>k. (rows M ! k)[n := g n (c ! k)]) [0..<length (rows M)]"
    using assms by (simp add: set_column_rows)
  have "rows (filled g (Suc n) cs ?M1) = rows (filled g n (c # cs) M)"
    unfolding filled_def using assms
    by (auto simp: r1 nth_list_update nth_Cons' intro!: nth_equalityI)
      (metis le_antisym not_less_eq_eq)+
  then show ?thesis
    by (intro matrix.equality) (simp_all add: filled_def set_column_def)
qed

lemma col_loop_value:
  assumes "\<forall>k<length cs. f (n + k) (cs ! k) = Inr (map (g (n + k)) (cs ! k))"
    and "\<forall>c\<in>set cs. length c = length (rows M)"
  shows "col_loop f (enumerate n cs) M = Inr (filled g n cs M)"
  using assms
proof (induction cs arbitrary: n M)
  case Nil
  then show ?case by (simp add: filled_Nil)
next
  case (Cons c cs)
  have f0: "f n c = Inr (map (g n) c)" using Cons.prems(1) by force
  have len: "length c = length (rows M)" using Cons.prems(2) by simp
  let ?M1 = "set_column M n (map (g n) c)"
  have lenM1: "length (rows ?M1) = length (rows M)"
    using len by (simp add: set_column_rows)
  have "\<forall>k<length cs. f (Suc n + k) (cs ! k) = Inr (map (g (Suc n + k)) (cs ! k))"
    using Cons.prems(1) by force
  moreover have "\<forall>c\<in>set cs. length c = length (rows ?M1)"
    using Cons.prems(2) lenM1 by simp
  ultimately have "col_loop f (enumerate (Suc n) cs) ?M1 = Inr (filled g (Suc n) cs ?M1)"
    by (rule Cons.IH)
  then show ?case using f0 len by (simp add: filled_Cons)
qed

lemma columns_length [simp]: "length (columns X) = ncols X"
  by (simp add: columns_def transpose_rows_def)

lemma columns_nth: "j < ncols X \<Longrightarrow> columns X ! j = map (\<lambda>r. r ! j) (rows X)"
  by (simp add: columns_def transpose_rows_def)

lemma columns_member_length: "c \<in> set (columns X) \<Longrightarrow> length c = length (rows X)"
  by (auto simp: columns_def transpose_rows_def)

lemma filled_zeros_columns:
  "filled g 0 (columns X) (zeros (nrows X) (ncols X)) = map_columns g X"
proof -
  have "rows (filled g 0 (columns X) (zeros (nrows X) (ncols X))) = rows (map_columns g X)"
    by (auto simp: filled_def zeros_def nrows_def map_columns_def columns_nth intro!: nth_equalityI)
  then show ?thesis
    by (intro matrix.equality) (simp_all add: filled_def zeros_def map_columns_def)
qed

lemma unitscale_loop_col_loop:
  "unitscale_loop R L cs M = col_loop (unitscale_col R L) cs M"
  by (induction cs arbitrary: M) (auto simp: unitscale_col_def split: sum.splits)

lemma inverse_unitscale_loop_col_loop:
  "inverse_unitscale_loop R L cs M = col_loop (inverse_unitscale_col R L) cs M"
  by (induction cs arbitrary: M) (auto simp: inverse_unitscale_col_def split: sum.splits)

lemma col_loop_columns:
  assumes "\<forall>j<ncols X. f j (columns X ! j) = Inr (map (g j) (columns X ! j))"
  shows "col_loop f (enumerate 0 (columns X)) (zeros (nrows X) (ncols X)) = Inr (map_columns g X)"
proof -
  have "col_loop f (enumerate 0 (columns X)) (zeros (nrows X) (ncols X))
          = Inr (filled g 0 (columns X) (zeros (nrows X) (ncols X)))"
    using assms
    by (intro col_loop_value) (auto simp: zeros_def nrows_def dest: columns_member_length)
  then show ?thesis by (simp add: filled_zeros_columns)
qed

lemma unitscale_col_value:
  assumes "j < length L" "j < length R" "range_bounds (R ! j) = Inr (lb, rb)"
  shows "unitscale_col R L j xi
           = Inr (map (\<lambda>x. (if L ! j then xlog10 else id) (unitscale_x lb rb x)) xi)"
  using assms by (simp add: unitscale_col_def getitem_def unitscale_xv_def)

lemma inverse_unitscale_col_value:
  assumes "j < length L" "j < length R" "range_bounds (R ! j) = Inr (lb, rb)"
  shows "inverse_unitscale_col R L j xi
           = Inr (map (\<lambda>x. (if L ! j then xpow10 else id) (inverse_unitscale_x lb rb x)) xi)"
  using assms by (simp add: inverse_unitscale_col_def getitem_def inverse_unitscale_xv_def)


lemma np_transpose_bounds:
  assumes "2 \<le> length R" "\<forall>r\<in>set R. length r = c" "j < c"
  shows "j < length (np_transpose R) \<and> range_bounds (np_transpose R ! j) = Inr (R ! 0 ! j, R ! 1 ! j)"
proof -
  obtain r0 R' where R: "R = r0 # R'" using assms(1) by (cases R) auto
  have "length r0 = c" using assms(2) R by simp
  then show ?thesis using assms(1,3) R
    by (auto simp: np_transpose_def transpose_rows_def range_bounds_def getitem_def)
qed

lemma default_bounds:
  "j < n \<Longrightarrow> range_bounds (replicate n [Val 0, Val 1] ! j) = Inr (Val 0, Val 1)"
  by (simp add: range_bounds_def getitem_def)

lemma unitscale_X_transposed:
  assumes "2 \<le> length R" "\<forall>r\<in>set R. length r = c" "ncols (atleast_2d X0) \<le> c"
    and "L = [] \<or> ncols (atleast_2d X0) \<le> length L"
  shows "unitscale_X X0 R L d
           = Inr (rounded d (map_columns
                (\<lambda>j x. (if L \<noteq> [] \<and> L ! j then xlog10 else id) (unitscale_x (R ! 0 ! j) (R ! 1 ! j) x))
                (atleast_2d X0)))"
proof -
  let ?M = "atleast_2d X0"
  let ?Le = "if L = [] then replicate (ncols ?M) False else L"
  let ?g = "\<lambda>j x. (if L \<noteq> [] \<and> L ! j then xlog10 else id) (unitscale_x (R ! 0 ! j) (R ! 1 ! j) x)"
  have R: "R \<noteq> []" using assms(1) by auto
  have "\<forall>j<ncols ?M. unitscale_col (np_transpose R) ?Le j (columns ?M ! j)
          = Inr (map (?g j) (columns ?M ! j))"
  proof (intro allI impI)
    fix j assume j: "j < ncols ?M"
    then have b: "j < length (np_transpose R)"
      "range_bounds (np_transpose R ! j) = Inr (R ! 0 ! j, R ! 1 ! j)"
      using np_transpose_bounds [OF assms(1,2), of j] assms(3) by auto
    have l: "j < length ?Le" using j assms(4) by auto
    have e: "?Le ! j = (L \<noteq> [] \<and> L ! j)" using j by simp
    show "unitscale_col (np_transpose R) ?Le j (columns ?M ! j) = Inr (map (?g j) (columns ?M ! j))"
      using unitscale_col_value [OF l b] e by simp
  qed
  then have "col_loop (unitscale_col (np_transpose R) ?Le) (enumerate 0 (columns ?M))
               (zeros (nrows ?M) (ncols ?M)) = Inr (map_columns ?g ?M)"
    by (rule col_loop_columns)
  then show ?thesis using R
    by (simp add: unitscale_X_def unitscale_loop_col_loop rounded_def Let_def split: option.splits)
qed

lemma inverse_unitscale_X_transposed:
  assumes "2 \<le> length R" "\<forall>r\<in>set R. length r = c" "ncols (atleast_2d X0) \<le> c"
    and "L = [] \<or> ncols (atleast_2d X0) \<le> length L"
  shows "inverse_unitscale_X X0 R L d
           = Inr (rounded d (map_columns
                (\<lambda>j x. (if L \<noteq> [] \<and> L ! j then xpow10 else id)
                          (inverse_unitscale_x (R ! 0 ! j) (R ! 1 ! j) x))
                (atleast_2d X0)))"
proof -
  let ?M = "atleast_2d X0"
  let ?Le = "if L = [] then replicate (ncols ?M) False else L"
  let ?g = "\<lambda>j x. (if L \<noteq> [] \<and> L ! j then xpow10 else id)
                     (inverse_unitscale_x (R ! 0 ! j) (R ! 1 ! j) x)"
  have R: "R \<noteq> []" using assms(1) by auto
  have "\<forall>j<ncols ?M. inverse_unitscale_col (np_transpose R) ?Le j (columns ?M ! j)
          = Inr (map (?g j) (columns ?M ! j))"
  proof (intro allI impI)
    fix j assume j: "j < ncols ?M"
    then have b: "j < length (np_transpose R)"
      "range_bounds (np_transpose R ! j) = Inr (R ! 0 ! j, R ! 1 ! j)"
      using np_transpose_bounds [OF assms(1,2), of j] assms(3) by auto
    have l: "j < length ?Le" using j assms(4) by auto
    have e: "?Le ! j = (L \<noteq> [] \<and> L ! j)" using j by simp
    show "inverse_unitscale_col (np_transpose R) ?Le j (columns ?M ! j)
            = Inr (map (?g j) (columns ?M ! j))"
      using inverse_unitscale_col_value [OF l b] e by simp
  qed
  then have "col_loop (inverse_unitscale_col (np_transpose R) ?Le) (enumerate 0 (columns ?M))
               (zeros (nrows ?M) (ncols ?M)) = Inr (map_columns ?g ?M)"
    by (rule col_loop_columns)
  then show ?thesis using R
    by (simp add: inverse_unitscale_X_def inverse_unitscale_loop_col_loop rounded_def Let_def
        split: option.splits)
qed

lemma col_loop_shape:
  assumes "\<And>i xi u. f i xi = Inr u \<Longrightarrow> length u = length xi"
    and "\<forall>p\<in>set cs. length (snd p) = length (rows M)"
    and "col_loop f cs M = Inr M'"
  shows "ncols M' = ncols M \<and> map length (rows M') = map length (rows M)"
  using assms(2,3)
proof (induction cs arbitrary: M)
  case Nil
  then show ?case by simp
next
  case (Cons p cs)
  obtain i xi where p: "p = (i, xi)" by (cases p)
  from Cons.prems(2) p obtain u where u: "f i xi = Inr u"
    and rest: "col_loop f cs (set_column M i u) = Inr M'"
    by (auto split: sum.splits)
  have lu: "length u = length (rows M)" using assms(1) [OF u] Cons.prems(1) p by simp
  have r1: "map length (rows (set_column M i u)) = map length (rows M)"
    using lu by (auto simp: set_column_rows intro!: nth_equalityI)
  then have "length (rows (set_column M i u)) = length (rows M)"
    by (metis length_map)
  then have "\<forall>p\<in>set cs. length (snd p) = length (rows (set_column M i u))"
    using Cons.prems(1) by simp
  from Cons.IH [OF this rest] r1 show ?case by simp
qed

lemma unitscale_col_length: "unitscale_col R L i xi = Inr u \<Longrightarrow> length u = length xi"
  by (auto simp: unitscale_col_def unitscale_xv_def split: sum.splits if_splits)

lemma inverse_unitscale_col_length:
  "inverse_unitscale_col R L i xi = Inr u \<Longrightarrow> length u = length xi"
  by (auto simp: inverse_unitscale_col_def inverse_unitscale_xv_def split: sum.splits if_splits)

lemma enumerate_columns_length:
  "\<forall>p\<in>set (enumerate 0 (columns X)). length (snd p) = length (rows (zeros (nrows X) (ncols X)))"
  by (auto simp: zeros_def nrows_def in_set_enumerate_eq columns_nth)

lemma rounded_shape: "shape (rounded d M) = shape M \<and> (wf_matrix M \<longrightarrow> wf_matrix (rounded d M))"
  by (auto simp: rounded_def around_def shape_def nrows_def wf_matrix_def list_all_iff split: option.splits)

lemma shape_from_lengths:
  assumes "ncols M' = d" "map length (rows M') = map length (rows (zeros n d))"
  shows "shape M' = (n, d) \<and> wf_matrix M'"
proof -
  have "length (rows M') = n" using assms(2) by (metis length_map length_replicate zeros_def matrix.select_convs(2))
  moreover have "\<forall>r\<in>set (rows M'). length r = d"
  proof
    fix r assume "r \<in> set (rows M')"
    then have "length r \<in> set (map length (rows M'))" by simp
    then show "length r = d" unfolding assms(2) by (auto simp: zeros_def)
  qed
  ultimately show ?thesis using assms(1) by (simp add: shape_def nrows_def wf_matrix_def list_all_iff)
qed

lemma unitscale_X_shape:
  assumes "unitscale_X X0 R L d = Inr Y"
  shows "shape Y = shape (atleast_2d X0) \<and> wf_matrix Y"
proof -
  let ?M = "atleast_2d X0"
  from assms obtain Re Le Y0 where
    loop: "col_loop (unitscale_col Re Le) (enumerate 0 (columns ?M)) (zeros (nrows ?M) (ncols ?M)) = Inr Y0"
    and Y: "Y = rounded d Y0"
    by (auto simp: unitscale_X_def unitscale_loop_col_loop rounded_def Let_def split: sum.splits option.splits)
  from col_loop_shape [OF unitscale_col_length enumerate_columns_length loop]
  have "ncols Y0 = ncols ?M" "map length (rows Y0) = map length (rows (zeros (nrows ?M) (ncols ?M)))"
    by (simp_all add: zeros_def)
  from shape_from_lengths [OF this] show ?thesis
    using Y rounded_shape [of d Y0] by (simp add: shape_def)
qed

section \<open>The matrix transforms\<close>

lemmas eval_scale =
  unitscale_X_def inverse_unitscale_X_def atleast_2d_def np_transpose_def transpose_rows_def
  columns_def zeros_def set_column_def getitem_def unitscale_xv_def inverse_unitscale_xv_def
  range_bounds_def unitscale_x_def inverse_unitscale_x_def xsub_def nrows_def Let_def
  upt_conv_Cons enumerate_eq_zip

text \<open>
  C3, as the code has it. The example of the specification passes the range as the list
  of one pair \<open>[[0, 100]]\<close>; the code transposes the range it is given, so the pair has
  to be given as the column \<open>[[0], [100]]\<close>. Then \<open>unitscale_X\<close> of \<open>[50]\<close> is the
  array of the one element \<open>0.5\<close>, and \<open>inverse_unitscale_xv\<close> of \<open>[0.5]\<close> in the range
  \<open>[0, 100]\<close> is \<open>[50]\<close>.
\<close>

theorem spec_example_transposed:
  "unitscale_X (Arr1 [Val 50]) [[Val 0], [Val 100]] [] None
     = Inr \<lparr>ncols = 1, rows = [[Val (1 / 2)]]\<rparr>
   \<and> inverse_unitscale_xv [Val (1 / 2)] [Val 0, Val 100] = Inr [Val 50]"
  by (simp add: eval_scale)

text \<open>
  C3, as the specification states it: with the range \<open>[[0, 100]]\<close> the call raises, the
  transposed range having two rows of one element and \<open>xi_range[1]\<close> being out of range.
\<close>

theorem spec_example_raises:
  "unitscale_X (Arr1 [Val 50]) [[Val 0, Val 100]] [] None = Inl IndexError"
  by (simp add: eval_scale)

text \<open>
  C1 at a failing input. The column is flagged, its range is \<open>(0, 2)\<close>, its one value is
  \<open>2\<close>: the forward transform gives \<open>log10 ((2 - 0) / (2 - 0)) = 0\<close>, and the inverse
  transform of this gives \<open>10 ** (0 + (2 - 0) * 0) = 1\<close>, not \<open>2\<close>.
\<close>

theorem log_roundtrip_fails:
  "unitscale_X (Arr2 \<lparr>ncols = 1, rows = [[Val 2]]\<rparr>) [[Val 0], [Val 2]] [True] None
     = Inr \<lparr>ncols = 1, rows = [[Val 0]]\<rparr>
   \<and> inverse_unitscale_X (Arr2 \<lparr>ncols = 1, rows = [[Val 0]]\<rparr>) [[Val 0], [Val 2]] [True] None
     = Inr \<lparr>ncols = 1, rows = [[Val 1]]\<rparr>"
  by (simp add: eval_scale)

text \<open>
  The order that the specification words does invert the forward transform of a flagged
  column, for a range with \<open>lo < hi\<close> and a value above \<open>lo\<close>.
\<close>

lemma power_first_roundtrip:
  assumes "lo < hi" "lo < x"
  shows "inverse_unitscale_x (Val lo) (Val hi)
           (xpow10 (xlog10 (unitscale_x (Val lo) (Val hi) (Val x)))) = Val x"
proof -
  have "0 < (x - lo) / (hi - lo)" using assms by simp
  then show ?thesis using assms
    by (simp add: unitscale_x_def inverse_unitscale_x_def xsub_def)
qed

text \<open>
  C2 at a failing input. The column is flagged, its range is \<open>(0, 3)\<close>, its one value is
  \<open>1\<close>: the code gives \<open>10 ** (0 + (3 - 0) * 1) = 1000\<close>, the vector inverse first and
  the power of ten after it; the order of the specification gives
  \<open>0 + (3 - 0) * 10 ** 1 = 30\<close>.
\<close>

theorem inverse_power_last:
  "inverse_unitscale_X (Arr2 \<lparr>ncols = 1, rows = [[Val 1]]\<rparr>) [[Val 0], [Val 3]] [True] None
     = Inr \<lparr>ncols = 1, rows = [[Val 1000]]\<rparr>
   \<and> inverse_column_power_first [Val 1] [Val 0, Val 3] = Inr [Val 30]"
  by (simp add: eval_scale inverse_column_power_first_def)

section \<open>Round trip of the vector transforms\<close>

lemma xreal_linear_roundtrip:
  "lo \<noteq> hi \<Longrightarrow>
     inverse_unitscale_x (Val lo) (Val hi) (unitscale_x (Val lo) (Val hi) (Val x)) = Val x"
  by (simp add: xsub_def unitscale_x_def inverse_unitscale_x_def)

text \<open>
  C4. For every vector \<open>xs\<close> of reals and every range \<open>(lo, hi)\<close> with \<open>lo \<noteq> hi\<close>,
  \<open>inverse_unitscale_xv (unitscale_xv xs (lo, hi)) (lo, hi)\<close> is \<open>xs\<close>: neither call
  raises, and the second returns the input of the first, exactly over the reals.
\<close>

theorem unitscale_xv_roundtrip:
  "lo \<noteq> hi \<Longrightarrow>
     (\<exists>u. unitscale_xv (map Val xs) [Val lo, Val hi] = Inr u
        \<and> inverse_unitscale_xv u [Val lo, Val hi] = Inr (map Val xs))"
  by (simp add: unitscale_xv_def inverse_unitscale_xv_def range_bounds_def getitem_def
      xreal_linear_roundtrip comp_def)

theorem unitscale_xv_roundtrip_witness:
  "(0::real) \<noteq> 100 \<and>
     (\<exists>u. unitscale_xv (map Val [50, 25]) [Val 0, Val 100] = Inr u
        \<and> inverse_unitscale_xv u [Val 0, Val 100] = Inr (map Val [50, 25]))"
  using unitscale_xv_roundtrip [of 0 100 "[50, 25]"] by simp

section \<open>Shape and range convention of the matrix transforms\<close>

lemma inverse_unitscale_X_shape:
  assumes "inverse_unitscale_X X0 R L d = Inr Y"
  shows "shape Y = shape (atleast_2d X0) \<and> wf_matrix Y"
proof -
  let ?M = "atleast_2d X0"
  from assms obtain Re Le Y0 where
    loop: "col_loop (inverse_unitscale_col Re Le) (enumerate 0 (columns ?M))
             (zeros (nrows ?M) (ncols ?M)) = Inr Y0"
    and Y: "Y = rounded d Y0"
    by (auto simp: inverse_unitscale_X_def inverse_unitscale_loop_col_loop rounded_def Let_def
        split: sum.splits option.splits)
  from col_loop_shape [OF inverse_unitscale_col_length enumerate_columns_length loop]
  have "ncols Y0 = ncols ?M" "map length (rows Y0) = map length (rows (zeros (nrows ?M) (ncols ?M)))"
    by (simp_all add: zeros_def)
  from shape_from_lengths [OF this] show ?thesis
    using Y rounded_shape [of d Y0] by (simp add: shape_def)
qed

lemma unitscale_X_default:
  "unitscale_X X0 [] [] d
     = Inr (rounded d (map_columns (\<lambda>j. unitscale_x (Val 0) (Val 1)) (atleast_2d X0)))"
proof -
  let ?M = "atleast_2d X0"
  have "\<forall>j<ncols ?M. unitscale_col (replicate (ncols ?M) [Val 0, Val 1]) (replicate (ncols ?M) False)
            j (columns ?M ! j) = Inr (map (unitscale_x (Val 0) (Val 1)) (columns ?M ! j))"
    by (simp add: unitscale_col_def getitem_def unitscale_xv_def range_bounds_def)
  then have "col_loop (unitscale_col (replicate (ncols ?M) [Val 0, Val 1]) (replicate (ncols ?M) False))
               (enumerate 0 (columns ?M)) (zeros (nrows ?M) (ncols ?M))
             = Inr (map_columns (\<lambda>j. unitscale_x (Val 0) (Val 1)) ?M)"
    by (rule col_loop_columns)
  then show ?thesis
    by (simp add: unitscale_X_def unitscale_loop_col_loop rounded_def Let_def split: option.splits)
qed

lemma inverse_unitscale_X_default:
  "inverse_unitscale_X X0 [] [] d
     = Inr (rounded d (map_columns (\<lambda>j. inverse_unitscale_x (Val 0) (Val 1)) (atleast_2d X0)))"
proof -
  let ?M = "atleast_2d X0"
  have "\<forall>j<ncols ?M. inverse_unitscale_col (replicate (ncols ?M) [Val 0, Val 1])
            (replicate (ncols ?M) False) j (columns ?M ! j)
          = Inr (map (inverse_unitscale_x (Val 0) (Val 1)) (columns ?M ! j))"
    by (simp add: inverse_unitscale_col_def getitem_def inverse_unitscale_xv_def range_bounds_def)
  then have "col_loop (inverse_unitscale_col (replicate (ncols ?M) [Val 0, Val 1])
                 (replicate (ncols ?M) False))
               (enumerate 0 (columns ?M)) (zeros (nrows ?M) (ncols ?M))
             = Inr (map_columns (\<lambda>j. inverse_unitscale_x (Val 0) (Val 1)) ?M)"
    by (rule col_loop_columns)
  then show ?thesis
    by (simp add: inverse_unitscale_X_def inverse_unitscale_loop_col_loop rounded_def Let_def
        split: option.splits)
qed

text \<open>
  C8. Whenever \<open>unitscale_X\<close> or \<open>inverse_unitscale_X\<close> returns, the array it returns
  has the rows and the columns of its input, a one-dimensional input counting as the
  array of one row; every row of the result has that many elements. With no range and
  no flags given the two functions return for every input. A one-dimensional input of
  length \<open>d\<close> is taken as the array of one row and \<open>d\<close> columns.
\<close>

theorem scale_shape_preserved:
  "(unitscale_X X R L d = Inr Y \<longrightarrow> shape Y = shape (atleast_2d X) \<and> wf_matrix Y)
   \<and> (inverse_unitscale_X X R L d = Inr Y' \<longrightarrow> shape Y' = shape (atleast_2d X) \<and> wf_matrix Y')
   \<and> (\<exists>U. unitscale_X X [] [] d = Inr U) \<and> (\<exists>V. inverse_unitscale_X X [] [] d = Inr V)
   \<and> atleast_2d (Arr2 M) = M
   \<and> shape (atleast_2d (Arr1 xs)) = (1, length xs)"
  using unitscale_X_shape [of X R L d Y] inverse_unitscale_X_shape [of X R L d Y']
  by (simp add: unitscale_X_default inverse_unitscale_X_default atleast_2d_def shape_def nrows_def)

theorem scale_shape_preserved_witness:
  "unitscale_X (Arr1 [Val 50, Val 2]) [[Val 0, Val 1], [Val 100, Val 3]] [] None
     = Inr \<lparr>ncols = 2, rows = [[Val (1 / 2), Val (1 / 2)]]\<rparr>
   \<and> shape \<lparr>ncols = 2, rows = [[Val (1 / 2), Val (1 / 2)]]\<rparr> = (1, 2)
   \<and> inverse_unitscale_X (Arr1 [Val 50, Val 2]) [[Val 0, Val 1], [Val 100, Val 3]] [] None
     = Inr \<lparr>ncols = 2, rows = [[Val 5000, Val 5]]\<rparr>
   \<and> shape \<lparr>ncols = 2, rows = [[Val 5000, Val 5]]\<rparr> = shape (atleast_2d (Arr1 [Val 50, Val 2]))"
  using scale_shape_preserved [of "Arr1 [Val 50, Val 2]" "[[Val 0, Val 1], [Val 100, Val 3]]" "[]" None
      "\<lparr>ncols = 2, rows = [[Val (1 / 2), Val (1 / 2)]]\<rparr>" "\<lparr>ncols = 2, rows = [[Val 5000, Val 5]]\<rparr>"]
  by (simp add: eval_scale shape_def)

text \<open>
  C10. A range that is not empty is transposed before use: for a rectangular
  \<open>X_range\<close> of at least two rows that has a column for each column of the data, column
  \<open>i\<close> of the data is scaled with the lower bound \<open>X_range[0][i]\<close> and the upper bound
  \<open>X_range[1][i]\<close>, by \<open>unitscale_X\<close> and by \<open>inverse_unitscale_X\<close>. The first row
  holds the lower bounds and the second the upper bounds.
\<close>

theorem range_rows_are_bounds:
  assumes "wf_matrix (atleast_2d X)"
    and "2 \<le> length X_range" and "\<forall>r\<in>set X_range. length r = c" and "ncols (atleast_2d X) \<le> c"
    and "log_flags = [] \<or> ncols (atleast_2d X) \<le> length log_flags"
  shows "unitscale_X X X_range log_flags decimals
           = Inr (rounded decimals (map_columns
                (\<lambda>i x. (if log_flags \<noteq> [] \<and> log_flags ! i then xlog10 else id)
                          (unitscale_x (X_range ! 0 ! i) (X_range ! 1 ! i) x))
                (atleast_2d X)))
       \<and> inverse_unitscale_X X X_range log_flags decimals
           = Inr (rounded decimals (map_columns
                (\<lambda>i x. (if log_flags \<noteq> [] \<and> log_flags ! i then xpow10 else id)
                          (inverse_unitscale_x (X_range ! 0 ! i) (X_range ! 1 ! i) x))
                (atleast_2d X)))"
  using unitscale_X_transposed [OF assms(2-5)] inverse_unitscale_X_transposed [OF assms(2-5)]
  by simp

theorem range_rows_are_bounds_witness:
  "unitscale_X (Arr2 \<lparr>ncols = 2, rows = [[Val 50, Val 2], [Val 100, Val 1]]\<rparr>)
       [[Val 0, Val 1], [Val 100, Val 3]] [] None
     = Inr \<lparr>ncols = 2, rows = [[Val (1 / 2), Val (1 / 2)], [Val 1, Val 0]]\<rparr>
   \<and> inverse_unitscale_X (Arr2 \<lparr>ncols = 2, rows = [[Val 50, Val 2], [Val 100, Val 1]]\<rparr>)
       [[Val 0, Val 1], [Val 100, Val 3]] [] None
     = Inr \<lparr>ncols = 2, rows = [[Val 5000, Val 5], [Val 10000, Val 3]]\<rparr>"
  using range_rows_are_bounds [of "Arr2 \<lparr>ncols = 2, rows = [[Val 50, Val 2], [Val 100, Val 1]]\<rparr>"
      "[[Val 0, Val 1], [Val 100, Val 3]]" 2 "[]" None]
  by (simp add: wf_matrix_def atleast_2d_def rounded_def map_columns_def unitscale_x_def
      inverse_unitscale_x_def xsub_def upt_conv_Cons)

lemma map_columns_compose:
  "map_columns f (map_columns g X) = map_columns (\<lambda>j x. f j (g j x)) X"
  by (simp add: map_columns_def comp_def)

lemma map_columns_ident:
  assumes "wf_matrix X" "\<forall>r\<in>set (rows X). \<forall>j<ncols X. g j (r ! j) = r ! j"
  shows "map_columns g X = X"
proof -
  have "map (\<lambda>r. map (\<lambda>j. g j (r ! j)) [0..<ncols X]) (rows X) = rows X"
  proof (rule map_idI)
    fix r assume r: "r \<in> set (rows X)"
    then have "length r = ncols X" using assms(1) by (simp add: wf_matrix_def list_all_iff)
    then show "map (\<lambda>j. g j (r ! j)) [0..<ncols X] = r"
      using assms(2) r by (auto intro!: nth_equalityI)
  qed
  then show ?thesis by (simp add: map_columns_def)
qed

text \<open>
  Without a flag the two matrix transforms are inverse to each other: for an array of
  reals and bounds \<open>lo \<noteq> hi\<close> in every column, the inverse transform of the forward
  transform is the input. The round trip fails only for a flagged column.
\<close>

lemma matrix_linear_roundtrip:
  assumes "wf_matrix X" "finite_matrix X" "length lows = ncols X" "length highs = ncols X"
    and "\<forall>j<ncols X. \<exists>lo hi. lows ! j = Val lo \<and> highs ! j = Val hi \<and> lo \<noteq> hi"
  shows "\<exists>Y. unitscale_X (Arr2 X) [lows, highs] [] None = Inr Y
            \<and> inverse_unitscale_X (Arr2 Y) [lows, highs] [] None = Inr X"
proof -
  let ?g = "\<lambda>j. unitscale_x (lows ! j) (highs ! j)"
  let ?f = "\<lambda>j. inverse_unitscale_x (lows ! j) (highs ! j)"
  let ?Y = "map_columns ?g X"
  have r: "\<forall>r\<in>set [lows, highs]. length r = ncols X" using assms(3,4) by simp
  have fwd: "unitscale_X (Arr2 X) [lows, highs] [] None = Inr ?Y"
    using unitscale_X_transposed [of "[lows, highs]" "ncols X" "Arr2 X" "[]" None] r
    by (simp add: atleast_2d_def rounded_def)
  have "inverse_unitscale_X (Arr2 ?Y) [lows, highs] [] None = Inr (map_columns ?f ?Y)"
    using inverse_unitscale_X_transposed [of "[lows, highs]" "ncols X" "Arr2 ?Y" "[]" None] r
    by (simp add: atleast_2d_def rounded_def map_columns_def)
  moreover have "map_columns ?f ?Y = X"
    unfolding map_columns_compose
  proof (rule map_columns_ident [OF assms(1)], intro ballI allI impI)
    fix r j assume r: "r \<in> set (rows X)" and j: "j < ncols X"
    from assms(5) j obtain lo hi where b: "lows ! j = Val lo" "highs ! j = Val hi" "lo \<noteq> hi"
      by blast
    have "length r = ncols X" "list_all is_val r"
      using r assms(1,2) by (auto simp: wf_matrix_def finite_matrix_def list_all_iff)
    then obtain x where "r ! j = Val x"
      using j by (cases "r ! j") (auto simp: list_all_length is_val_def)
    then show "?f j (?g j (r ! j)) = r ! j"
      using b by (simp add: xreal_linear_roundtrip)
  qed
  ultimately show ?thesis using fwd by simp
qed

section \<open>Standardization and its inverse\<close>

lemma foldl_xadd_Val: "foldl xadd (Val a) (map Val xs) = Val (a + sum_list xs)"
  by (induction xs arbitrary: a) (simp_all add: add.assoc)

lemma xsum_Val: "xsum (map Val xs) = Val (sum_list xs)"
  by (simp add: xsum_def foldl_xadd_Val)

lemma xmean_Val: "xs \<noteq> [] \<Longrightarrow> xmean (map Val xs) = Val (sum_list xs / real (length xs))"
  by (simp add: xmean_def xsum_Val)

lemma xstd_Val:
  assumes "xs \<noteq> []"
  shows "\<exists>b. xstd (map Val xs) = Val b"
proof -
  let ?m = "sum_list xs / real (length xs)"
  let ?sq = "map (\<lambda>x. (x - ?m) * (x - ?m)) xs"
  have sq: "map (\<lambda>x. xmul (xsub x (Val ?m)) (xsub x (Val ?m))) (map Val xs) = map Val ?sq"
    by (simp add: xsub_def)
  have "?sq \<noteq> []" using assms by simp
  then have "xmean (map Val ?sq) = Val (sum_list ?sq / real (length ?sq))"
    by (rule xmean_Val)
  moreover have "0 \<le> sum_list ?sq / real (length ?sq)"
    by (intro divide_nonneg_nonneg sum_list_nonneg) auto
  ultimately show ?thesis using assms
    by (simp add: xstd_def xmean_Val sq Let_def del: map_map)
qed

lemma all_val_map: "list_all is_val c \<Longrightarrow> \<exists>ys. c = map Val ys"
proof (induction c)
  case Nil
  then show ?case by simp
next
  case (Cons x c)
  then obtain ys where "c = map Val ys" by auto
  moreover from Cons.prems obtain v where "x = Val v"
    by (cases x) (auto simp: is_val_def)
  ultimately have "x # c = map Val (v # ys)" by simp
  then show ?case by (rule exI [of _ "v # ys"])
qed

lemma finite_column:
  assumes "wf_matrix X" "finite_matrix X" "j < ncols X"
  shows "list_all is_val (columns X ! j)"
  using assms
  by (auto simp: columns_nth wf_matrix_def finite_matrix_def list_all_iff)

lemma column_statistics:
  assumes "wf_matrix X" "finite_matrix X" "j < ncols X" "rows X \<noteq> []"
  shows "\<exists>a b. col_mean X ! j = Val a \<and> col_std X ! j = Val b"
proof -
  from all_val_map [OF finite_column [OF assms(1-3)]]
  obtain ys where ys: "columns X ! j = map Val ys" by blast
  have "length (columns X ! j) = length (rows X)"
    using assms(3) by (simp add: columns_nth)
  then have "ys \<noteq> []" using assms(4) ys by auto
  then show ?thesis using assms(3) ys xstd_Val [of ys]
    by (auto simp: col_mean_def col_std_def xmean_Val)
qed

lemma standardize_elem_roundtrip:
  "b \<noteq> 0 \<Longrightarrow> xadd (xmul (xdiv (xsub (Val x) (Val a)) (Val b)) (Val b)) (Val a) = Val x"
  by (simp add: xsub_def)

lemma standardize_row_roundtrip:
  assumes "length r = n" "length m = n" "length s = n" "list_all is_val r"
    and "\<forall>j<n. \<exists>a b. m ! j = Val a \<and> s ! j = Val b \<and> b \<noteq> 0"
  shows "map2 xadd (map2 xmul (map2 xdiv (map2 xsub r m) s) s) m = r"
proof (rule nth_equalityI)
  show "length (map2 xadd (map2 xmul (map2 xdiv (map2 xsub r m) s) s) m) = length r"
    using assms(1-3) by simp
next
  fix j assume "j < length (map2 xadd (map2 xmul (map2 xdiv (map2 xsub r m) s) s) m)"
  then have j: "j < n" using assms(1-3) by simp
  from assms(5) j obtain a b where ab: "m ! j = Val a" "s ! j = Val b" "b \<noteq> 0" by blast
  from assms(4) j assms(1) obtain x where x: "r ! j = Val x"
    by (cases "r ! j") (auto simp: list_all_length is_val_def)
  show "map2 xadd (map2 xmul (map2 xdiv (map2 xsub r m) s) s) m ! j = r ! j"
    using j assms(1-3) ab x by (simp add: standardize_elem_roundtrip)
qed

lemma col_stat_lengths [simp]: "length (col_mean X) = ncols X" "length (col_std X) = ncols X"
  by (simp_all add: col_mean_def col_std_def)

text \<open>
  C5. For every array \<open>X\<close> of reals whose columns all have a population standard
  deviation other than zero, \<open>standardize_X\<close> of \<open>X\<close> with no statistics given returns,
  and \<open>inverse_standardize_X\<close> of its result with the column means and the column
  deviations of \<open>X\<close> returns \<open>X\<close>, exactly over the reals.
\<close>

theorem standardize_roundtrip:
  assumes "wf_matrix X" and "finite_matrix X" and "\<forall>s\<in>set (col_std X). s \<noteq> Val 0"
  shows "\<exists>Z. standardize_X X None None = Inr Z
            \<and> inverse_standardize_X Z (col_mean X) (col_std X) = Inr X"
proof -
  let ?m = "col_mean X" and ?s = "col_std X"
  let ?Z = "X\<lparr>rows := map (\<lambda>r. map2 xdiv (map2 xsub r ?m) ?s) (rows X)\<rparr>"
  have fwd: "standardize_X X None None = Inr ?Z"
    by (simp add: standardize_X_def broadcast_def)
  have stats: "\<forall>j<ncols X. \<exists>a b. ?m ! j = Val a \<and> ?s ! j = Val b \<and> b \<noteq> 0"
    if "rows X \<noteq> []"
  proof (intro allI impI)
    fix j assume j: "j < ncols X"
    from column_statistics [OF assms(1,2) j that]
    obtain a b where ab: "?m ! j = Val a" "?s ! j = Val b" by blast
    have "?s ! j \<in> set ?s" using j by simp
    then have "b \<noteq> 0" using assms(3) ab by auto
    then show "\<exists>a b. ?m ! j = Val a \<and> ?s ! j = Val b \<and> b \<noteq> 0" using ab by blast
  qed
  have "map (\<lambda>r. map2 xadd (map2 xmul (map2 xdiv (map2 xsub r ?m) ?s) ?s) ?m) (rows X) = rows X"
  proof (rule map_idI)
    fix r assume r: "r \<in> set (rows X)"
    then have ne: "rows X \<noteq> []" by auto
    have "length r = ncols X" "list_all is_val r"
      using r assms(1,2) by (auto simp: wf_matrix_def finite_matrix_def list_all_iff)
    then show "map2 xadd (map2 xmul (map2 xdiv (map2 xsub r ?m) ?s) ?s) ?m = r"
      using stats [OF ne] by (intro standardize_row_roundtrip [where n = "ncols X"]) simp_all
  qed
  then have "inverse_standardize_X ?Z ?m ?s = Inr X"
    by (simp add: inverse_standardize_X_def broadcast_def comp_def)
  with fwd show ?thesis by blast
qed

theorem standardize_roundtrip_witness:
  "wf_matrix \<lparr>ncols = 1, rows = [[Val 1], [Val 3]]\<rparr>
   \<and> finite_matrix \<lparr>ncols = 1, rows = [[Val 1], [Val 3]]\<rparr>
   \<and> col_mean \<lparr>ncols = 1, rows = [[Val 1], [Val 3]]\<rparr> = [Val 2]
   \<and> col_std \<lparr>ncols = 1, rows = [[Val 1], [Val 3]]\<rparr> = [Val 1]
   \<and> (\<exists>Z. standardize_X \<lparr>ncols = 1, rows = [[Val 1], [Val 3]]\<rparr> None None = Inr Z
          \<and> inverse_standardize_X Z [Val 2] [Val 1] = Inr \<lparr>ncols = 1, rows = [[Val 1], [Val 3]]\<rparr>)"
proof -
  have s: "col_mean \<lparr>ncols = 1, rows = [[Val 1], [Val 3]]\<rparr> = [Val 2]"
    "col_std \<lparr>ncols = 1, rows = [[Val 1], [Val 3]]\<rparr> = [Val 1]"
    by (simp_all add: col_mean_def col_std_def xmean_def xstd_def xsum_def columns_def
        transpose_rows_def xsub_def Let_def)
  have w: "wf_matrix \<lparr>ncols = 1, rows = [[Val 1], [Val 3]]\<rparr>"
    "finite_matrix \<lparr>ncols = 1, rows = [[Val 1], [Val 3]]\<rparr>"
    by (simp_all add: wf_matrix_def finite_matrix_def is_val_def)
  have n: "\<forall>s\<in>set (col_std \<lparr>ncols = 1, rows = [[Val 1], [Val 3]]\<rparr>). s \<noteq> Val 0"
    unfolding s by simp
  show ?thesis using standardize_roundtrip [OF w n] w unfolding s by simp
qed

text \<open>
  C6 at two failing inputs, for the array of the one column \<open>1, 3\<close> (mean \<open>2\<close>,
  population deviation \<open>1\<close>). With the mean given and the deviation left out the call
  raises a type error: the deviation is computed only under the test \<open>X_mean is None\<close>.
  With the mean left out and the deviation \<open>2\<close> given, the given deviation is replaced
  by the computed one, and the result is \<open>(X - 2) / 1\<close>, not \<open>(X - 2) / 2\<close>.
\<close>

theorem standardize_supplied_arguments:
  "standardize_X \<lparr>ncols = 1, rows = [[Val 1], [Val 3]]\<rparr> (Some [Val 2]) None = Inl TypeError
   \<and> standardize_X \<lparr>ncols = 1, rows = [[Val 1], [Val 3]]\<rparr> None (Some [Val 2])
       = Inr \<lparr>ncols = 1, rows = [[Val (- 1)], [Val 1]]\<rparr>"
  by (simp add: standardize_X_def broadcast_def col_mean_def col_std_def xmean_def xstd_def
      xsum_def columns_def transpose_rows_def xsub_def Let_def)


section \<open>The mesh\<close>

lemma nth_concat_uniform:
  assumes "\<forall>xs\<in>set xss. length xs = n" "i < length xss" "j < n"
  shows "concat xss ! (i * n + j) = xss ! i ! j"
  using assms
proof (induction xss arbitrary: i)
  case Nil
  then show ?case by simp
next
  case (Cons xs xss)
  have len: "length xs = n" using Cons.prems(1) by simp
  show ?case
  proof (cases i)
    case 0
    then show ?thesis using len Cons.prems(3) by (simp add: nth_append)
  next
    case (Suc i')
    then have "concat xss ! (i' * n + j) = xss ! i' ! j"
      using Cons.IH [of i'] Cons.prems by simp
    then show ?thesis using Suc len by (simp add: nth_append)
  qed
qed

lemma length_concat_uniform:
  "\<forall>xs\<in>set xss. length xs = n \<Longrightarrow> length (concat xss) = length xss * n"
  by (induction xss) simp_all

lemma linspace_length [simp]: "length (linspace a b n) = n"
  by (simp add: linspace_def)

lemma linspace_unit:
  assumes "k < n"
  shows "\<exists>v. linspace 0 1 n ! k = Val v \<and> 0 \<le> v \<and> v \<le> 1
           \<and> (1 < n \<longrightarrow> v = real k / real (n - 1)) \<and> (n = 1 \<longrightarrow> v = 0)"
proof (cases "n = 1")
  case True
  then show ?thesis using assms by (simp add: linspace_def)
next
  case False
  then have "real k \<le> real (n - 1)" "0 < real (n - 1)" using assms by auto
  then show ?thesis using assms False by (simp add: linspace_def)
qed

lemma mesh_pairs_eq:
  "concat (map (\<lambda>i. map (\<lambda>j. [rows (fst (meshgrid_xy x x)) ! i ! j, rows (snd (meshgrid_xy x x)) ! i ! j])
                         [0..<length x]) [0..<length x])
     = concat (map (\<lambda>i. map (\<lambda>j. [x ! j, x ! i]) [0..<length x]) [0..<length x])"
proof -
  have e: "[rows (fst (meshgrid_xy x x)) ! i ! j, rows (snd (meshgrid_xy x x)) ! i ! j] = [x ! j, x ! i]"
    if "i < length x" "j < length x" for i j
    using that by (simp add: meshgrid_xy_def)
  have "map (\<lambda>i. map (\<lambda>j. [rows (fst (meshgrid_xy x x)) ! i ! j, rows (snd (meshgrid_xy x x)) ! i ! j])
                   [0..<length x]) [0..<length x]
          = map (\<lambda>i. map (\<lambda>j. [x ! j, x ! i]) [0..<length x]) [0..<length x]"
    by (rule map_cong [OF refl], rule map_cong [OF refl]) (simp add: e)
  then show ?thesis by (rule arg_cong)
qed

text \<open>
  C7, as the code has it. For every size \<open>n \<ge> 1\<close> the call returns \<open>n * n\<close> pairs, the
  pair at position \<open>i * n + j\<close> being \<open>(x[j], x[i])\<close> for the \<open>n\<close> evenly spaced values
  \<open>x\<close> of \<open>np.linspace(0, 1, n)\<close>: the first coordinate follows the inner loop and the
  second the outer loop. Every coordinate lies in \<open>[0, 1]\<close>; for \<open>n > 1\<close> the \<open>k\<close>-th
  value is \<open>k / (n - 1)\<close>, and the one value of \<open>n = 1\<close> is \<open>0\<close>.
\<close>

theorem create_2D_mesh_pairs:
  assumes "1 \<le> n"
  shows "\<exists>T X1 X2. create_2D_mesh (int n) = Inr (Arr2 T, X1, X2)
           \<and> ncols T = 2 \<and> length (rows T) = n * n
           \<and> (\<forall>i<n. \<forall>j<n. rows T ! (i * n + j) = [linspace 0 1 n ! j, linspace 0 1 n ! i])
           \<and> (\<forall>k<n. \<exists>v. linspace 0 1 n ! k = Val v \<and> 0 \<le> v \<and> v \<le> 1
                     \<and> (1 < n \<longrightarrow> v = real k / real (n - 1)) \<and> (n = 1 \<longrightarrow> v = 0))"
proof -
  let ?x = "linspace 0 1 n"
  let ?xss = "map (\<lambda>i. map (\<lambda>j. [?x ! j, ?x ! i]) [0..<n]) [0..<n]"
  let ?T = "\<lparr>ncols = 2, rows = concat ?xss\<rparr>"
  have u: "\<forall>xs\<in>set ?xss. length xs = n" by auto
  have len: "length (concat ?xss) = n * n"
    using length_concat_uniform [OF u] by simp
  moreover have "0 < n * n" using assms by simp
  ultimately have ne: "concat ?xss \<noteq> []" by (metis length_greater_0_conv)
  have pairs: "concat (map (\<lambda>i. map (\<lambda>j. [rows (fst (meshgrid_xy ?x ?x)) ! i ! j,
                                           rows (snd (meshgrid_xy ?x ?x)) ! i ! j]) [0..<n]) [0..<n])
               = concat ?xss"
    using mesh_pairs_eq [of ?x] by simp
  have call: "create_2D_mesh (int n)
                = Inr (Arr2 ?T, fst (meshgrid_xy ?x ?x), snd (meshgrid_xy ?x ?x))"
    using ne pairs assms by (simp add: create_2D_mesh_def Let_def split_beta)
  have nth: "\<forall>i<n. \<forall>j<n. rows ?T ! (i * n + j) = [?x ! j, ?x ! i]"
  proof (intro allI impI)
    fix i j assume "i < n" "j < n"
    then show "rows ?T ! (i * n + j) = [?x ! j, ?x ! i]"
      using nth_concat_uniform [OF u, of i j] by simp
  qed
  show ?thesis using call len nth linspace_unit [of _ n]
    by (intro exI [of _ ?T] exI [of _ "fst (meshgrid_xy ?x ?x)"] exI [of _ "snd (meshgrid_xy ?x ?x)"])
      simp
qed

theorem create_2D_mesh_pairs_witness:
  "(1::nat) \<le> 2
   \<and> (\<exists>T X1 X2. create_2D_mesh 2 = Inr (Arr2 T, X1, X2)
           \<and> ncols T = 2 \<and> length (rows T) = 4
           \<and> rows T ! 1 = [Val 1, Val 0] \<and> rows T ! 2 = [Val 0, Val 1])
   \<and> (1::nat) \<le> 1
   \<and> (\<exists>T X1 X2. create_2D_mesh 1 = Inr (Arr2 T, X1, X2)
           \<and> ncols T = 2 \<and> length (rows T) = 1 \<and> rows T ! 0 = [Val 0, Val 0])"
proof -
  have l: "linspace 0 1 2 = [Val 0, Val 1]"
    by (simp add: linspace_def upt_conv_Cons)
  from create_2D_mesh_pairs [of 2] obtain T X1 X2 where
    c: "create_2D_mesh 2 = Inr (Arr2 T, X1, X2)" "ncols T = 2" "length (rows T) = 4"
    and p: "\<forall>i<2. \<forall>j<2. rows T ! (i * 2 + j) = [linspace 0 1 2 ! j, linspace 0 1 2 ! i]"
    by auto
  from p have "rows T ! (0 * 2 + 1) = [linspace 0 1 2 ! 1, linspace 0 1 2 ! 0]"
    by (metis one_less_numeral_iff pos2 semiring_norm(76))
  moreover from p have "rows T ! (1 * 2 + 0) = [linspace 0 1 2 ! 0, linspace 0 1 2 ! 1]"
    by (metis one_less_numeral_iff pos2 semiring_norm(76))
  ultimately have two: "\<exists>T X1 X2. create_2D_mesh 2 = Inr (Arr2 T, X1, X2)
           \<and> ncols T = 2 \<and> length (rows T) = 4
           \<and> rows T ! 1 = [Val 1, Val 0] \<and> rows T ! 2 = [Val 0, Val 1]"
    using c by (auto simp: l)
  from create_2D_mesh_pairs [of 1] obtain T' X1' X2' where
    c': "create_2D_mesh 1 = Inr (Arr2 T', X1', X2')" "ncols T' = 2" "length (rows T') = 1"
    and p': "rows T' ! 0 = [linspace 0 1 1 ! 0, linspace 0 1 1 ! 0]"
    and v': "\<exists>v. linspace 0 1 1 ! 0 = Val v \<and> (1 = (1::nat) \<longrightarrow> v = 0)"
    by auto
  from v' have "linspace 0 1 1 ! 0 = Val 0" by auto
  with c' p' have one: "\<exists>T X1 X2. create_2D_mesh 1 = Inr (Arr2 T, X1, X2)
           \<and> ncols T = 2 \<and> length (rows T) = 1 \<and> rows T ! 0 = [Val 0, Val 0]"
    by auto
  from two one show ?thesis by simp
qed

text \<open>
  C7, as the specification states it: for \<open>n = 2\<close> the pairs of the code are
  \<open>(0,0), (1,0), (0,1), (1,1)\<close>, which is not the order of an outer loop over \<open>x1\<close> and
  an inner loop over \<open>x2\<close>, \<open>(0,0), (0,1), (1,0), (1,1)\<close>.
\<close>

theorem mesh_order_x1_inner:
  "create_2D_mesh 2
     = Inr (Arr2 \<lparr>ncols = 2, rows = [[Val 0, Val 0], [Val 1, Val 0], [Val 0, Val 1], [Val 1, Val 1]]\<rparr>,
            \<lparr>ncols = 2, rows = [[Val 0, Val 1], [Val 0, Val 1]]\<rparr>,
            \<lparr>ncols = 2, rows = [[Val 0, Val 0], [Val 1, Val 1]]\<rparr>)
   \<and> [[Val 0, Val 0], [Val 1, Val 0], [Val 0, Val 1], [Val 1, Val 1]] \<noteq> mesh_pairs_x1_outer 2"
  by (auto simp add: create_2D_mesh_def linspace_def meshgrid_xy_def mesh_pairs_x1_outer_def
      Let_def eval_nat_numeral)

section \<open>The transforms and the store\<close>

lemma fresh_resultI:
  assumes "take (length h) h' = h" "\<And>a. res = Inr a \<Longrightarrow> length h \<le> a \<and> a < length h'"
  shows "fresh_result h (res, h')"
  using assms by (auto simp: fresh_result_def split: sum.splits)

lemma unitscale_xv_st_frame:
  assumes "unitscale_xv_st h xv r = (res, h')"
  shows "(\<exists>ys. h' = h @ ys) \<and> (\<forall>a. res = Inr a \<longrightarrow> length h \<le> a \<and> a < length h')"
  using assms
  by (auto simp: unitscale_xv_st_def alloc_def Let_def split: sum.splits prod.splits)

lemma inverse_unitscale_xv_st_frame:
  assumes "inverse_unitscale_xv_st h xv r = (res, h')"
  shows "(\<exists>ys. h' = h @ ys) \<and> (\<forall>a. res = Inr a \<longrightarrow> length h \<le> a \<and> a < length h')"
  using assms
  by (auto simp: inverse_unitscale_xv_st_def alloc_def Let_def split: sum.splits prod.splits)

lemma unitscale_loop_st_frame:
  assumes "unitscale_loop_st h X Xunit R L js = (res, h')" "n \<le> Xunit" "n \<le> length h"
  shows "take n h' = take n h \<and> length h \<le> length h'"
  using assms
proof (induction js arbitrary: h)
  case Nil
  then show ?case by simp
next
  case (Cons i js)
  show ?case
  proof (cases "getitem L i")
    case (Inl e)
    then show ?thesis using Cons.prems by simp
  next
    case flag: (Inr flag)
    show ?thesis
    proof (cases "getitem R i")
      case (Inl e)
      then show ?thesis using Cons.prems flag by simp
    next
      case ri: (Inr ri)
      obtain r1 h1 where xv: "unitscale_xv_st h (Column X i) ri = (r1, h1)"
        by (cases "unitscale_xv_st h (Column X i) ri")
      from unitscale_xv_st_frame [OF xv] obtain ys where h1: "h1 = h @ ys" by blast
      show ?thesis
      proof (cases r1)
        case (Inl e)
        then show ?thesis using Cons.prems flag ri xv h1 by auto
      next
        case (Inr a)
        define bh where "bh = (if flag then alloc h1 (map_ndarray xlog10 (h1 ! a)) else (a, h1))"
        obtain b h2 where bh2: "bh = (b, h2)" by (cases bh)
        have h2: "\<exists>zs. h2 = h @ zs"
          using bh2 h1 by (auto simp: bh_def alloc_def split: if_splits)
        define h3 where
          "h3 = h2[Xunit := Arr2 (set_column (atleast_2d (h2 ! Xunit)) i (vec_of (h2 ! b)))]"
        have rec: "unitscale_loop_st h3 X Xunit R L js = (res, h')"
          using Cons.prems(1) flag ri xv Inr bh2 by (simp add: bh_def [symmetric] h3_def)
        have t3: "take n h3 = take n h" "length h \<le> length h3"
          using h2 Cons.prems(2,3) by (auto simp: h3_def)
        then have "n \<le> length h3" using Cons.prems(3) by simp
        from Cons.IH [OF rec Cons.prems(2) this] t3 show ?thesis by simp
      qed
    qed
  qed
qed


lemma inverse_unitscale_loop_st_frame:
  assumes "inverse_unitscale_loop_st h X Xreal R L js = (res, h')" "n \<le> Xreal" "n \<le> length h"
  shows "take n h' = take n h \<and> length h \<le> length h'"
  using assms
proof (induction js arbitrary: h)
  case Nil
  then show ?case by simp
next
  case (Cons i js)
  show ?case
  proof (cases "getitem L i")
    case (Inl e)
    then show ?thesis using Cons.prems by simp
  next
    case flag: (Inr flag)
    show ?thesis
    proof (cases "getitem R i")
      case (Inl e)
      then show ?thesis using Cons.prems flag by simp
    next
      case ri: (Inr ri)
      obtain r1 h1 where xv: "inverse_unitscale_xv_st h (Column X i) ri = (r1, h1)"
        by (cases "inverse_unitscale_xv_st h (Column X i) ri")
      from inverse_unitscale_xv_st_frame [OF xv] obtain ys where h1: "h1 = h @ ys" by blast
      show ?thesis
      proof (cases r1)
        case (Inl e)
        then show ?thesis using Cons.prems flag ri xv h1 by auto
      next
        case (Inr a)
        define bh where "bh = (if flag then alloc h1 (map_ndarray xpow10 (h1 ! a)) else (a, h1))"
        obtain b h2 where bh2: "bh = (b, h2)" by (cases bh)
        have h2: "\<exists>zs. h2 = h @ zs"
          using bh2 h1 by (auto simp: bh_def alloc_def split: if_splits)
        define h3 where
          "h3 = h2[Xreal := Arr2 (set_column (atleast_2d (h2 ! Xreal)) i (vec_of (h2 ! b)))]"
        have rec: "inverse_unitscale_loop_st h3 X Xreal R L js = (res, h')"
          using Cons.prems(1) flag ri xv Inr bh2 by (simp add: bh_def [symmetric] h3_def)
        have t3: "take n h3 = take n h" "length h \<le> length h3"
          using h2 Cons.prems(2,3) by (auto simp: h3_def)
        then have "n \<le> length h3" using Cons.prems(3) by simp
        from Cons.IH [OF rec Cons.prems(2) this] t3 show ?thesis by simp
      qed
    qed
  qed
qed

lemma promote_st_frame:
  assumes "promote_st h X0 = (X, h1)"
  shows "\<exists>ys. h1 = h @ ys"
  using assms by (auto simp: promote_st_def alloc_def Let_def split: ndarray.splits)

lemma unitscale_X_st_fresh: "fresh_result h (unitscale_X_st h X0 R0 L0 d)"
proof -
  obtain X h1 where pr: "promote_st h X0 = (X, h1)" by (cases "promote_st h X0")
  from promote_st_frame [OF pr] obtain ys where h1: "h1 = h @ ys" by blast
  define M where "M = atleast_2d (h1 ! X)"
  define Re where "Re = (if R0 = [] then replicate (ncols M) [Val 0, Val 1] else np_transpose R0)"
  define Le where "Le = (if L0 = [] then replicate (ncols M) False else L0)"
  define h2 where "h2 = h1 @ [Arr2 (zeros (nrows M) (ncols M))]"
  obtain res h3 where lp: "unitscale_loop_st h2 X (length h1) Re Le [0..<ncols M] = (res, h3)"
    by (cases "unitscale_loop_st h2 X (length h1) Re Le [0..<ncols M]")
  have "length h \<le> length h1" "length h \<le> length h2" using h1 by (simp_all add: h2_def)
  from unitscale_loop_st_frame [OF lp this]
  have f3: "take (length h) h3 = h" "length h2 \<le> length h3"
    using h1 by (simp_all add: h2_def)
  have call: "unitscale_X_st h X0 R0 L0 d =
     (case res of Inl e \<Rightarrow> (Inl e, h3)
      | Inr u \<Rightarrow> (case d of None \<Rightarrow> (Inr (length h1), h3)
           | Some k \<Rightarrow> (Inr (length h3), h3 @ [Arr2 (around k (atleast_2d (h3 ! length h1)))])))"
    unfolding unitscale_X_st_def Let_def pr prod.case alloc_def M_def [symmetric]
      Re_def [symmetric] Le_def [symmetric] h2_def [symmetric] lp
    by (simp split: sum.splits option.splits)
  show ?thesis unfolding call using f3 h1
    by (auto simp: h2_def intro!: fresh_resultI split: sum.splits option.splits)
qed

lemma inverse_unitscale_X_st_fresh: "fresh_result h (inverse_unitscale_X_st h X0 R0 L0 d)"
proof -
  obtain X h1 where pr: "promote_st h X0 = (X, h1)" by (cases "promote_st h X0")
  from promote_st_frame [OF pr] obtain ys where h1: "h1 = h @ ys" by blast
  define M where "M = atleast_2d (h1 ! X)"
  define Re where "Re = (if R0 = [] then replicate (ncols M) [Val 0, Val 1] else np_transpose R0)"
  define Le where "Le = (if L0 = [] then replicate (ncols M) False else L0)"
  define h2 where "h2 = h1 @ [Arr2 (zeros (nrows M) (ncols M))]"
  obtain res h3 where
    lp: "inverse_unitscale_loop_st h2 X (length h1) Re Le [0..<ncols M] = (res, h3)"
    by (cases "inverse_unitscale_loop_st h2 X (length h1) Re Le [0..<ncols M]")
  have "length h \<le> length h1" "length h \<le> length h2" using h1 by (simp_all add: h2_def)
  from inverse_unitscale_loop_st_frame [OF lp this]
  have f3: "take (length h) h3 = h" "length h2 \<le> length h3"
    using h1 by (simp_all add: h2_def)
  have call: "inverse_unitscale_X_st h X0 R0 L0 d =
     (case res of Inl e \<Rightarrow> (Inl e, h3)
      | Inr u \<Rightarrow> (case d of None \<Rightarrow> (Inr (length h1), h3)
           | Some k \<Rightarrow> (Inr (length h3), h3 @ [Arr2 (around k (atleast_2d (h3 ! length h1)))])))"
    unfolding inverse_unitscale_X_st_def Let_def pr prod.case alloc_def M_def [symmetric]
      Re_def [symmetric] Le_def [symmetric] h2_def [symmetric] lp
    by (simp split: sum.splits option.splits)
  show ?thesis unfolding call using f3 h1
    by (auto simp: h2_def intro!: fresh_resultI split: sum.splits option.splits)
qed

lemma standardize_X_st_fresh: "fresh_result h (standardize_X_st h X m s)"
  by (auto simp: standardize_X_st_def fresh_result_def alloc_def Let_def
      split: sum.splits option.splits prod.splits)

lemma inverse_standardize_X_st_fresh: "fresh_result h (inverse_standardize_X_st h X m s)"
  by (auto simp: inverse_standardize_X_st_def fresh_result_def alloc_def Let_def
      split: sum.splits option.splits prod.splits)

lemma unitscale_xv_st_fresh: "fresh_result h (unitscale_xv_st h xv r)"
  by (auto simp: unitscale_xv_st_def fresh_result_def alloc_def Let_def
      split: sum.splits option.splits prod.splits)

lemma inverse_unitscale_xv_st_fresh: "fresh_result h (inverse_unitscale_xv_st h xv r)"
  by (auto simp: inverse_unitscale_xv_st_def fresh_result_def alloc_def Let_def
      split: sum.splits option.splits prod.splits)


lemma view_append: "valid_ref h xv \<Longrightarrow> view (h @ ys) xv = view h xv"
  by (cases xv) (simp_all add: nth_append)

lemma unitscale_xv_st_agrees:
  assumes "valid_ref h xv" "view h xv = Arr1 xs"
  shows "agrees (unitscale_xv_st h xv r) (map_sum id Arr1 (unitscale_xv xs r))"
  using assms
  by (auto simp: agrees_def unitscale_xv_st_def unitscale_xv_def alloc_def Let_def view_append
      nth_append unitscale_x_def split: sum.splits prod.splits)

lemma inverse_unitscale_xv_st_agrees:
  assumes "valid_ref h xv" "view h xv = Arr1 xs"
  shows "agrees (inverse_unitscale_xv_st h xv r) (map_sum id Arr1 (inverse_unitscale_xv xs r))"
  using assms
  by (auto simp: agrees_def inverse_unitscale_xv_st_def inverse_unitscale_xv_def alloc_def Let_def
      view_append nth_append inverse_unitscale_x_def split: sum.splits prod.splits)

lemma standardize_X_st_agrees:
  assumes "X < length h" "h ! X = Arr2 M"
    and "case m of None \<Rightarrow> mv = None | Some a \<Rightarrow> a < length h \<and> mv = Some (vec_of (h ! a))"
    and "case s of None \<Rightarrow> sv = None | Some a \<Rightarrow> a < length h \<and> sv = Some (vec_of (h ! a))"
  shows "agrees (standardize_X_st h X m s) (map_sum id Arr2 (standardize_X M mv sv))"
  using assms
  by (auto simp: agrees_def standardize_X_st_def standardize_X_def alloc_def Let_def atleast_2d_def
      nth_append split: sum.splits prod.splits option.splits)

lemma inverse_standardize_X_st_agrees:
  assumes "X < length h" "h ! X = Arr2 M" "m < length h" "s < length h"
  shows "agrees (inverse_standardize_X_st h X m s)
           (map_sum id Arr2 (inverse_standardize_X M (vec_of (h ! m)) (vec_of (h ! s))))"
  using assms
  by (auto simp: agrees_def inverse_standardize_X_st_def inverse_standardize_X_def alloc_def Let_def
      atleast_2d_def nth_append split: sum.splits prod.splits option.splits)


lemma enumerate_columns:
  "enumerate 0 (columns M) = map (\<lambda>i. (i, columns M ! i)) [0..<ncols M]"
proof -
  have "enumerate 0 (columns M) = map (\<lambda>k. (k, map (\<lambda>r. r ! k) (rows M))) [0..<ncols M]"
    by (simp add: columns_def transpose_rows_def enumerate_map_upt)
  also have "\<dots> = map (\<lambda>i. (i, columns M ! i)) [0..<ncols M]"
    by (rule map_cong [OF refl]) (simp add: columns_nth)
  finally show ?thesis .
qed

lemma unitscale_loop_st_agrees:
  assumes "X < length h" "Xunit < length h" "X \<noteq> Xunit" "h ! X = Arr2 M" "h ! Xunit = Arr2 U"
    and "\<forall>i\<in>set js. i < ncols M"
  shows "case unitscale_loop R L (map (\<lambda>i. (i, columns M ! i)) js) U of
           Inl e \<Rightarrow> fst (unitscale_loop_st h X Xunit R L js) = Inl e
         | Inr U' \<Rightarrow> (\<exists>h'. unitscale_loop_st h X Xunit R L js = (Inr (), h')
                          \<and> Xunit < length h' \<and> h' ! Xunit = Arr2 U')"
  using assms
proof (induction js arbitrary: h U)
  case Nil
  then show ?case by simp
next
  case (Cons i js)
  show ?case
  proof (cases "getitem L i")
    case (Inl e)
    then show ?thesis by simp
  next
    case flag: (Inr flag)
    show ?thesis
    proof (cases "getitem R i")
      case (Inl e)
      then show ?thesis using flag by simp
    next
      case ri: (Inr ri)
      have i: "i < ncols M" using Cons.prems(6) by simp
      have v: "view h (Column X i) = Arr1 (columns M ! i)"
        using Cons.prems(4) i by (simp add: columns_nth atleast_2d_def)
      have ag: "agrees (unitscale_xv_st h (Column X i) ri)
                  (map_sum id Arr1 (unitscale_xv (columns M ! i) ri))"
        using Cons.prems(1) v by (intro unitscale_xv_st_agrees) simp_all
      obtain r1 h1 where xv: "unitscale_xv_st h (Column X i) ri = (r1, h1)"
        by (cases "unitscale_xv_st h (Column X i) ri")
      from unitscale_xv_st_frame [OF xv] obtain ys where h1: "h1 = h @ ys" by blast
      show ?thesis
      proof (cases "unitscale_xv (columns M ! i) ri")
        case (Inl e)
        then have "r1 = Inl e" using ag xv by (simp add: agrees_def)
        then show ?thesis using flag ri Inl xv by simp
      next
        case (Inr u)
        then obtain a where a: "r1 = Inr a" "a < length h1" "h1 ! a = Arr1 u"
          using ag xv by (auto simp: agrees_def split: sum.splits)
        let ?col = "if flag then map xlog10 u else u"
        define bh where "bh = (if flag then alloc h1 (map_ndarray xlog10 (h1 ! a)) else (a, h1))"
        obtain b h2 where bh2: "bh = (b, h2)" by (cases bh)
        have h2: "\<exists>zs. h2 = h @ zs" "h2 ! b = Arr1 ?col"
          using bh2 h1 a by (auto simp: bh_def alloc_def split: if_splits)
        define h3 where
          "h3 = h2[Xunit := Arr2 (set_column (atleast_2d (h2 ! Xunit)) i (vec_of (h2 ! b)))]"
        have rec: "unitscale_loop_st h X Xunit R L (i # js) = unitscale_loop_st h3 X Xunit R L js"
          using flag ri xv a(1) bh2 by (simp add: bh_def [symmetric] h3_def)
        have pure: "unitscale_loop R L (map (\<lambda>i. (i, columns M ! i)) (i # js)) U
                      = unitscale_loop R L (map (\<lambda>i. (i, columns M ! i)) js) (set_column U i ?col)"
          using flag ri Inr by simp
        from h2(1) obtain zs where zs: "h2 = h @ zs" by blast
        have p3: "X < length h3" "Xunit < length h3" "h3 ! X = Arr2 M"
          "h3 ! Xunit = Arr2 (set_column U i ?col)"
          using Cons.prems(1-5) h2(2) zs by (simp_all add: h3_def nth_append atleast_2d_def)
        have "\<forall>i\<in>set js. i < ncols M" using Cons.prems(6) by simp
        from Cons.IH [OF p3(1,2) Cons.prems(3) p3(3,4) this]
        show ?thesis unfolding rec pure .
      qed
    qed
  qed
qed

lemma promote_st_value:
  assumes "X0 < length h" "promote_st h X0 = (X, h1)"
  shows "X < length h1 \<and> h1 ! X = Arr2 (atleast_2d (h ! X0))"
  using assms
  by (auto simp: promote_st_def alloc_def Let_def atleast_2d_def nth_append split: ndarray.splits)

lemma unitscale_X_st_agrees:
  assumes "X0 < length h"
  shows "agrees (unitscale_X_st h X0 R0 L0 d) (map_sum id Arr2 (unitscale_X (h ! X0) R0 L0 d))"
proof -
  obtain X h1 where pr: "promote_st h X0 = (X, h1)" by (cases "promote_st h X0")
  from promote_st_value [OF assms pr]
  have X: "X < length h1" "h1 ! X = Arr2 (atleast_2d (h ! X0))" by simp_all
  define M where "M = atleast_2d (h ! X0)"
  have M1: "atleast_2d (h1 ! X) = M" using X(2) by (simp add: M_def atleast_2d_def)
  define Re where "Re = (if R0 = [] then replicate (ncols M) [Val 0, Val 1] else np_transpose R0)"
  define Le where "Le = (if L0 = [] then replicate (ncols M) False else L0)"
  define h2 where "h2 = h1 @ [Arr2 (zeros (nrows M) (ncols M))]"
  obtain res h3 where lp: "unitscale_loop_st h2 X (length h1) Re Le [0..<ncols M] = (res, h3)"
    by (cases "unitscale_loop_st h2 X (length h1) Re Le [0..<ncols M]")
  have call: "unitscale_X_st h X0 R0 L0 d =
     (case res of Inl e \<Rightarrow> (Inl e, h3)
      | Inr u \<Rightarrow> (case d of None \<Rightarrow> (Inr (length h1), h3)
           | Some k \<Rightarrow> (Inr (length h3), h3 @ [Arr2 (around k (atleast_2d (h3 ! length h1)))])))"
    unfolding unitscale_X_st_def Let_def pr prod.case alloc_def M1
      Re_def [symmetric] Le_def [symmetric] h2_def [symmetric] lp
    by (simp split: sum.splits option.splits)
  have pure: "unitscale_X (h ! X0) R0 L0 d =
     (case unitscale_loop Re Le (map (\<lambda>i. (i, columns M ! i)) [0..<ncols M])
             (zeros (nrows M) (ncols M)) of
        Inl e \<Rightarrow> Inl e
      | Inr Y \<Rightarrow> Inr (case d of None \<Rightarrow> Y | Some k \<Rightarrow> around k Y))"
    unfolding unitscale_X_def Let_def M_def [symmetric] Re_def [symmetric] Le_def [symmetric]
      enumerate_columns ..
  have "case unitscale_loop Re Le (map (\<lambda>i. (i, columns M ! i)) [0..<ncols M])
               (zeros (nrows M) (ncols M)) of
          Inl e \<Rightarrow> fst (unitscale_loop_st h2 X (length h1) Re Le [0..<ncols M]) = Inl e
        | Inr U' \<Rightarrow> (\<exists>h'. unitscale_loop_st h2 X (length h1) Re Le [0..<ncols M] = (Inr (), h')
                         \<and> length h1 < length h' \<and> h' ! length h1 = Arr2 U')"
    using X by (intro unitscale_loop_st_agrees) (auto simp: h2_def nth_append M_def)
  then show ?thesis unfolding call pure using lp
    by (auto simp: agrees_def atleast_2d_def split: sum.splits option.splits)
qed


lemma inverse_unitscale_loop_st_agrees:
  assumes "X < length h" "Xreal < length h" "X \<noteq> Xreal" "h ! X = Arr2 M" "h ! Xreal = Arr2 U"
    and "\<forall>i\<in>set js. i < ncols M"
  shows "case inverse_unitscale_loop R L (map (\<lambda>i. (i, columns M ! i)) js) U of
           Inl e \<Rightarrow> fst (inverse_unitscale_loop_st h X Xreal R L js) = Inl e
         | Inr U' \<Rightarrow> (\<exists>h'. inverse_unitscale_loop_st h X Xreal R L js = (Inr (), h')
                          \<and> Xreal < length h' \<and> h' ! Xreal = Arr2 U')"
  using assms
proof (induction js arbitrary: h U)
  case Nil
  then show ?case by simp
next
  case (Cons i js)
  show ?case
  proof (cases "getitem L i")
    case (Inl e)
    then show ?thesis by simp
  next
    case flag: (Inr flag)
    show ?thesis
    proof (cases "getitem R i")
      case (Inl e)
      then show ?thesis using flag by simp
    next
      case ri: (Inr ri)
      have i: "i < ncols M" using Cons.prems(6) by simp
      have v: "view h (Column X i) = Arr1 (columns M ! i)"
        using Cons.prems(4) i by (simp add: columns_nth atleast_2d_def)
      have ag: "agrees (inverse_unitscale_xv_st h (Column X i) ri)
                  (map_sum id Arr1 (inverse_unitscale_xv (columns M ! i) ri))"
        using Cons.prems(1) v by (intro inverse_unitscale_xv_st_agrees) simp_all
      obtain r1 h1 where xv: "inverse_unitscale_xv_st h (Column X i) ri = (r1, h1)"
        by (cases "inverse_unitscale_xv_st h (Column X i) ri")
      from inverse_unitscale_xv_st_frame [OF xv] obtain ys where h1: "h1 = h @ ys" by blast
      show ?thesis
      proof (cases "inverse_unitscale_xv (columns M ! i) ri")
        case (Inl e)
        then have "r1 = Inl e" using ag xv by (simp add: agrees_def)
        then show ?thesis using flag ri Inl xv by simp
      next
        case (Inr u)
        then obtain a where a: "r1 = Inr a" "a < length h1" "h1 ! a = Arr1 u"
          using ag xv by (auto simp: agrees_def split: sum.splits)
        let ?col = "if flag then map xpow10 u else u"
        define bh where "bh = (if flag then alloc h1 (map_ndarray xpow10 (h1 ! a)) else (a, h1))"
        obtain b h2 where bh2: "bh = (b, h2)" by (cases bh)
        have h2: "\<exists>zs. h2 = h @ zs" "h2 ! b = Arr1 ?col"
          using bh2 h1 a by (auto simp: bh_def alloc_def split: if_splits)
        define h3 where
          "h3 = h2[Xreal := Arr2 (set_column (atleast_2d (h2 ! Xreal)) i (vec_of (h2 ! b)))]"
        have rec: "inverse_unitscale_loop_st h X Xreal R L (i # js) = inverse_unitscale_loop_st h3 X Xreal R L js"
          using flag ri xv a(1) bh2 by (simp add: bh_def [symmetric] h3_def)
        have pure: "inverse_unitscale_loop R L (map (\<lambda>i. (i, columns M ! i)) (i # js)) U
                      = inverse_unitscale_loop R L (map (\<lambda>i. (i, columns M ! i)) js) (set_column U i ?col)"
          using flag ri Inr by simp
        from h2(1) obtain zs where zs: "h2 = h @ zs" by blast
        have p3: "X < length h3" "Xreal < length h3" "h3 ! X = Arr2 M"
          "h3 ! Xreal = Arr2 (set_column U i ?col)"
          using Cons.prems(1-5) h2(2) zs by (simp_all add: h3_def nth_append atleast_2d_def)
        have "\<forall>i\<in>set js. i < ncols M" using Cons.prems(6) by simp
        from Cons.IH [OF p3(1,2) Cons.prems(3) p3(3,4) this]
        show ?thesis unfolding rec pure .
      qed
    qed
  qed
qed


lemma inverse_unitscale_X_st_agrees:
  assumes "X0 < length h"
  shows "agrees (inverse_unitscale_X_st h X0 R0 L0 d) (map_sum id Arr2 (inverse_unitscale_X (h ! X0) R0 L0 d))"
proof -
  obtain X h1 where pr: "promote_st h X0 = (X, h1)" by (cases "promote_st h X0")
  from promote_st_value [OF assms pr]
  have X: "X < length h1" "h1 ! X = Arr2 (atleast_2d (h ! X0))" by simp_all
  define M where "M = atleast_2d (h ! X0)"
  have M1: "atleast_2d (h1 ! X) = M" using X(2) by (simp add: M_def atleast_2d_def)
  define Re where "Re = (if R0 = [] then replicate (ncols M) [Val 0, Val 1] else np_transpose R0)"
  define Le where "Le = (if L0 = [] then replicate (ncols M) False else L0)"
  define h2 where "h2 = h1 @ [Arr2 (zeros (nrows M) (ncols M))]"
  obtain res h3 where lp: "inverse_unitscale_loop_st h2 X (length h1) Re Le [0..<ncols M] = (res, h3)"
    by (cases "inverse_unitscale_loop_st h2 X (length h1) Re Le [0..<ncols M]")
  have call: "inverse_unitscale_X_st h X0 R0 L0 d =
     (case res of Inl e \<Rightarrow> (Inl e, h3)
      | Inr u \<Rightarrow> (case d of None \<Rightarrow> (Inr (length h1), h3)
           | Some k \<Rightarrow> (Inr (length h3), h3 @ [Arr2 (around k (atleast_2d (h3 ! length h1)))])))"
    unfolding inverse_unitscale_X_st_def Let_def pr prod.case alloc_def M1
      Re_def [symmetric] Le_def [symmetric] h2_def [symmetric] lp
    by (simp split: sum.splits option.splits)
  have pure: "inverse_unitscale_X (h ! X0) R0 L0 d =
     (case inverse_unitscale_loop Re Le (map (\<lambda>i. (i, columns M ! i)) [0..<ncols M])
             (zeros (nrows M) (ncols M)) of
        Inl e \<Rightarrow> Inl e
      | Inr Y \<Rightarrow> Inr (case d of None \<Rightarrow> Y | Some k \<Rightarrow> around k Y))"
    unfolding inverse_unitscale_X_def Let_def M_def [symmetric] Re_def [symmetric] Le_def [symmetric]
      enumerate_columns ..
  have "case inverse_unitscale_loop Re Le (map (\<lambda>i. (i, columns M ! i)) [0..<ncols M])
               (zeros (nrows M) (ncols M)) of
          Inl e \<Rightarrow> fst (inverse_unitscale_loop_st h2 X (length h1) Re Le [0..<ncols M]) = Inl e
        | Inr U' \<Rightarrow> (\<exists>h'. inverse_unitscale_loop_st h2 X (length h1) Re Le [0..<ncols M] = (Inr (), h')
                         \<and> length h1 < length h' \<and> h' ! length h1 = Arr2 U')"
    using X by (intro inverse_unitscale_loop_st_agrees) (auto simp: h2_def nth_append M_def)
  then show ?thesis unfolding call pure using lp
    by (auto simp: agrees_def atleast_2d_def split: sum.splits option.splits)
qed


text \<open>
  C9. Each of the six transforms, started on any store with any arguments, leaves every
  object of that store as it was, its arguments among them, whether it returns or
  raises; and the array it returns is a new object, at an address the store did not
  have.
\<close>

theorem transforms_leave_arguments:
  "fresh_result h (unitscale_xv_st h xv xi_range)
   \<and> fresh_result h (inverse_unitscale_xv_st h xv xi_range)
   \<and> fresh_result h (unitscale_X_st h X X_range log_flags decimals)
   \<and> fresh_result h (inverse_unitscale_X_st h X X_range log_flags decimals)
   \<and> fresh_result h (standardize_X_st h X X_mean X_std)
   \<and> fresh_result h (inverse_standardize_X_st h X m s)"
  by (simp add: unitscale_xv_st_fresh inverse_unitscale_xv_st_fresh unitscale_X_st_fresh
      inverse_unitscale_X_st_fresh standardize_X_st_fresh inverse_standardize_X_st_fresh)

theorem transforms_leave_arguments_witness:
  "unitscale_X_st [Arr1 [Val 50]] 0 [[Val 0], [Val 100]] [] None
     = (Inr 3, [Arr1 [Val 50], Arr1 [Val 50], Arr2 \<lparr>ncols = 1, rows = [[Val 50]]\<rparr>,
                Arr2 \<lparr>ncols = 1, rows = [[Val (1 / 2)]]\<rparr>,
                Arr1 [Val 50], Arr1 [Val 50], Arr1 [Val (1 / 2)]])
   \<and> fresh_result [Arr1 [Val 50]]
        (Inr 3, [Arr1 [Val 50], Arr1 [Val 50], Arr2 \<lparr>ncols = 1, rows = [[Val 50]]\<rparr>,
                Arr2 \<lparr>ncols = 1, rows = [[Val (1 / 2)]]\<rparr>,
                Arr1 [Val 50], Arr1 [Val 50], Arr1 [Val (1 / 2)]])"
proof -
  have e: "unitscale_X_st [Arr1 [Val 50]] 0 [[Val 0], [Val 100]] [] None
     = (Inr 3, [Arr1 [Val 50], Arr1 [Val 50], Arr2 \<lparr>ncols = 1, rows = [[Val 50]]\<rparr>,
                Arr2 \<lparr>ncols = 1, rows = [[Val (1 / 2)]]\<rparr>,
                Arr1 [Val 50], Arr1 [Val 50], Arr1 [Val (1 / 2)]])"
    by (simp add: unitscale_X_st_def promote_st_def alloc_def unitscale_xv_st_def atleast_2d_def
        np_transpose_def transpose_rows_def zeros_def set_column_def getitem_def range_bounds_def
        xsub_def nrows_def Let_def)
  show ?thesis
    using transforms_leave_arguments [of "[Arr1 [Val 50]]" "Whole 0" "[Val 0, Val 100]" 0
        "[[Val 0], [Val 100]]" "[]" None None None 0 0]
    unfolding e by simp
qed

end
